theory Spec2Isabelle
  imports Main
begin

section \<open>The receiver of the VADCP instrument client (receiver.py)\<close>

text \<open>
  The class \<open>_Receiver\<close> reads buffers from a socket, pushes them through a
  pipeline of stream filters into its sink, keeps the received text lines and derives
  the conversational state of the instrument from them.  The class is embedded as
  functions on a record of its attributes; a method that mutates \<open>self\<close> returns the
  updated record.  Python 2 byte strings are \<open>string\<close>.
\<close>

subsection \<open>Collaborators outside receiver.py\<close>

text \<open>
  Modelled from the spec: the class \<open>State\<close> of the module \<open>defs\<close>, which receiver.py
  imports and which is not among the sources.  The spec names three conversational
  states: Unknown (TBD), Prompt and CollectingData; receiver.py refers to them as
  \<open>State.TBD\<close>, \<open>State.PROMPT\<close> and \<open>State.COLLECTING_DATA\<close>.  The attribute
  \<open>_state\<close> also takes Python's \<open>None\<close> (the unset marker), so it is a
  \<open>State option\<close>.
\<close>

datatype State = State_TBD | State_PROMPT | State_COLLECTING_DATA

text \<open>
  What receiver.py takes from modules that are not among the sources is a parameter of
  the model: the prompt marker \<open>PROMPT\<close> of \<open>defs\<close>, the text \<open>str\<close> gives for a
  state (used for the transcript prefix), and the truth value Python gives to a
  timestamp and to an ensemble object (the sink tests \<open>if ts:\<close> and \<open>if pd0:\<close>).
\<close>

record ('t, 'p) externals =
  PROMPT :: string
  str_State :: "State \<Rightarrow> string"
  truth_ts :: "'t \<Rightarrow> bool"
  truth_pd0 :: "'p \<Rightarrow> bool"

subsection \<open>The receiver object\<close>

text \<open>
  The records written by the logger are kept as a trace, so that claims about logging
  can be stated.  \<open>Transition old new last_line\<close> is the record of \<open>_set_state\<close>.
\<close>

datatype ('t, 'p) log_record =
    Transition "State option" "State option" string
  | Debug_Lines "string list"
  | Debug_Timestamp 't
  | Debug_PD0 'p
  | Debug_Reading
  | Debug_Socket_Error
  | Debug_Read nat
  | Info_Running
  | Info_Ended

text \<open>
  The attributes of \<open>_Receiver\<close>.  The transcript \<open>outfile\<close> is the list of the strings
  written to it (\<open>None\<close> when no transcript is attached).  The data listener is a
  callback; its effect is a function on a state of its own, \<open>world\<close>.  \<open>recv_time\<close> is
  the reading of the clock at the last received buffer.  The socket and the thread are
  not attributes of the model: the socket is the environment of \<open>run\<close> below.
\<close>

record ('t, 'p, 'w) receiver =
  bufsize :: nat
  ooi_digi :: bool
  data_listener :: "('p \<Rightarrow> 'w \<Rightarrow> 'w) option"
  outfile :: "string list option"
  prefix_state :: bool
  active :: bool
  state :: "State option"
  latest_ts :: "'t option"
  latest_pd0 :: "'p option"
  last_line :: string
  new_line :: string
  lines :: "string list"
  recv_time :: nat
  world :: 'w
  logged :: "('t, 'p) log_record list"

definition MAX_NUM_LINES :: int where
  "MAX_NUM_LINES = 1024"

definition newline :: char where
  "newline = CHR 0x0A"

definition log_append ::
  "('t, 'p, 'w) receiver \<Rightarrow> ('t, 'p) log_record \<Rightarrow> ('t, 'p, 'w) receiver" where
  "log_append s r = s\<lparr>logged := logged s @ [r]\<rparr>"

text \<open>
  \<open>_set_state\<close>: logs the transition (and the lines, when the last line is not empty)
  and assigns the state, only when the new state differs from the held one.
\<close>

definition set_state ::
  "('t, 'p, 'w) receiver \<Rightarrow> State option \<Rightarrow> ('t, 'p, 'w) receiver" where
  "set_state s st =
     (if state s \<noteq> st then
        let s1 = log_append s (Transition (state s) st (last_line s));
            s2 = (if last_line s1 \<noteq> [] then log_append s1 (Debug_Lines (lines s1)) else s1)
        in s2\<lparr>state := st\<rparr>
      else s)"

text \<open>\<open>reset_internal_info\<close> and the constructor \<open>__init__\<close>.\<close>

definition reset_internal_info :: "('t, 'p, 'w) receiver \<Rightarrow> ('t, 'p, 'w) receiver" where
  "reset_internal_info s =
     set_state (s\<lparr>last_line := [], new_line := [], lines := [], recv_time := 0\<rparr>)
       (Some State_TBD)"

definition new_receiver ::
  "nat \<Rightarrow> bool \<Rightarrow> ('p \<Rightarrow> 'w \<Rightarrow> 'w) option \<Rightarrow> string list option \<Rightarrow> bool \<Rightarrow> 'w
     \<Rightarrow> ('t, 'p, 'w) receiver" where
  "new_receiver bsz digi listener out pfx w =
     reset_internal_info
       \<lparr>bufsize = bsz, ooi_digi = digi, data_listener = listener, outfile = out,
        prefix_state = pfx, active = False, state = None, latest_ts = None,
        latest_pd0 = None, last_line = [], new_line = [], lines = [], recv_time = 0,
        world = w, logged = []\<rparr>"

text \<open>\<open>end\<close>: a request to stop; it only clears the flag.\<close>

definition receiver_end :: "('t, 'p, 'w) receiver \<Rightarrow> ('t, 'p, 'w) receiver" where
  "receiver_end s = s\<lparr>active := False\<rparr>"

subsection \<open>The line tracker\<close>

text \<open>
  Python's slice \<open>xs[i:]\<close>: a negative start counts from the end and is clamped to the
  start of the list.
\<close>

definition py_slice_from :: "int \<Rightarrow> 'a list \<Rightarrow> 'a list" where
  "py_slice_from i xs =
     (let n = int (length xs);
          j = (if i < 0 then max 0 (n + i) else min i n)
      in drop (nat j) xs)"

text \<open>
  The body of the loop of \<open>_update_lines\<close> at a newline: the line in progress becomes
  the last line, is appended to the history, and the history is cut when it holds more
  than \<open>MAX_NUM_LINES\<close> entries.
\<close>

definition line_completed :: "('t, 'p, 'w) receiver \<Rightarrow> ('t, 'p, 'w) receiver" where
  "line_completed s =
     (let s1 = s\<lparr>last_line := new_line s\<rparr>;
          s2 = s1\<lparr>new_line := []\<rparr>;
          s3 = s2\<lparr>lines := lines s2 @ [last_line s2]\<rparr>
      in if int (length (lines s3)) > MAX_NUM_LINES
         then s3\<lparr>lines := py_slice_from (1 - MAX_NUM_LINES) (lines s3)\<rparr>
         else s3)"

fun update_lines_loop ::
  "nat \<Rightarrow> ('t, 'p, 'w) receiver \<Rightarrow> string \<Rightarrow> nat \<times> ('t, 'p, 'w) receiver" where
  "update_lines_loop numl s [] = (numl, s)"
| "update_lines_loop numl s (c # cs) =
     (if c = newline then update_lines_loop (numl + 1) (line_completed s) cs
      else update_lines_loop numl (s\<lparr>new_line := new_line s @ [c]\<rparr>) cs)"

definition update_lines ::
  "('t, 'p, 'w) receiver \<Rightarrow> string \<Rightarrow> nat \<times> ('t, 'p, 'w) receiver" where
  "update_lines s buffer = update_lines_loop 0 s buffer"

text \<open>
  \<open>str.rstrip()\<close> without argument removes trailing whitespace: tab, line feed,
  vertical tab, form feed, carriage return and space.
\<close>

definition is_space :: "char \<Rightarrow> bool" where
  "is_space c = (c \<in> set [CHR 0x09, CHR 0x0A, CHR 0x0B, CHR 0x0C, CHR 0x0D, CHR 0x20])"

definition rstrip :: "string \<Rightarrow> string" where
  "rstrip s = rev (dropWhile is_space (rev s))"

text \<open>
  \<open>_buffer_received\<close>: note that the second branch assigns \<open>None\<close> to the state
  directly, not through \<open>_set_state\<close>.
\<close>

definition buffer_received ::
  "('t, 'p) externals \<Rightarrow> ('t, 'p, 'w) receiver \<Rightarrow> string \<Rightarrow> ('t, 'p, 'w) receiver" where
  "buffer_received E s buffer =
     (let (numl, s1) = update_lines s buffer
      in if rstrip (last_line s1) = PROMPT E then set_state s1 (Some State_PROMPT)
         else if numl \<noteq> 0 then s1\<lparr>state := None\<rparr>
         else s1)"

subsection \<open>The sink of the pipeline\<close>

definition timestamp_received :: "('t, 'p, 'w) receiver \<Rightarrow> 't \<Rightarrow> ('t, 'p, 'w) receiver" where
  "timestamp_received s ts = log_append (s\<lparr>latest_ts := Some ts\<rparr>) (Debug_Timestamp ts)"

definition pd0_received :: "('t, 'p, 'w) receiver \<Rightarrow> 'p \<Rightarrow> ('t, 'p, 'w) receiver" where
  "pd0_received s pd0 =
     (let s1 = set_state s (Some State_COLLECTING_DATA);
          s2 = s1\<lparr>latest_pd0 := Some pd0\<rparr>;
          s3 = log_append s2 (Debug_PD0 pd0)
      in case data_listener s3 of
           Some listener \<Rightarrow> s3\<lparr>world := listener pd0 (world s3)\<rparr>
         | None \<Rightarrow> s3)"

text \<open>
  A message of the pipeline is a pair of the extracted elements (a dictionary with the
  keys \<open>latest_ts\<close> and \<open>pd0\<close>, both optional) and the remaining buffer.
\<close>

record ('t, 'p) xelems =
  x_latest_ts :: "'t option"
  x_pd0 :: "'p option"

definition no_xelems :: "('t, 'p) xelems" where
  "no_xelems = \<lparr>x_latest_ts = None, x_pd0 = None\<rparr>"

type_synonym ('t, 'p) message = "('t, 'p) xelems \<times> string"

text \<open>One round of the loop of \<open>sink\<close>: the message received at \<open>yield\<close> is handled.\<close>

definition sink ::
  "('t, 'p) externals \<Rightarrow> ('t, 'p, 'w) receiver \<Rightarrow> ('t, 'p) message \<Rightarrow> ('t, 'p, 'w) receiver" where
  "sink E s m =
     (let s1 = (case x_latest_ts (fst m) of
                  Some ts \<Rightarrow> if truth_ts E ts then timestamp_received s ts else s
                | None \<Rightarrow> s);
          s2 = (case x_pd0 (fst m) of
                  Some pd0 \<Rightarrow> if truth_pd0 E pd0 then pd0_received s1 pd0 else s1
                | None \<Rightarrow> s1)
      in if snd m \<noteq> [] then buffer_received E s2 (snd m) else s2)"

text \<open>The fields the line tracker and the state machine keep.\<close>

definition tracker ::
  "('t, 'p, 'w) receiver \<Rightarrow> string list \<times> string \<times> string \<times> State option" where
  "tracker s = (lines s, last_line s, new_line s, state s)"

subsection \<open>The read loop\<close>

text \<open>
  The environment of \<open>run\<close>.  \<open>sock_recv i\<close> is the outcome of the \<open>i\<close>-th call of
  \<open>sock.recv\<close>: a buffer, the exception \<open>socket.timeout\<close>, or another
  \<open>socket.error\<close>.  The loop runs in an execution context of its own while \<open>end\<close>
  may be called from any other; \<open>end\<close> only writes the flag \<open>_active\<close>, so all that
  matters is which read of the flag sees the write: \<open>end_calls k\<close> tells whether \<open>end\<close>
  was called between the previous read of the flag by the loop and its \<open>k\<close>-th read.
  \<open>clock i\<close> is the value of \<open>time.time()\<close> after the \<open>i\<close>-th call of \<open>sock.recv\<close>.
  The timeout that \<open>run\<close> sets on the socket only bounds how long a call of
  \<open>sock.recv\<close> waits before it raises \<open>socket.timeout\<close>; it is part of the
  environment.
\<close>

datatype recv_result = Data string | Timeout | SockError

record env =
  sock_recv :: "nat \<Rightarrow> recv_result"
  end_calls :: "nat \<Rightarrow> bool"
  clock :: "nat \<Rightarrow> nat"

text \<open>
  Modelled from the spec: the coroutines \<open>timestamp_filter\<close> and \<open>pd0_filter\<close> of the
  modules \<open>util.ts_filter\<close> and \<open>util.pd0_filter\<close>, which receiver.py imports and
  which are not among the sources.  By the spec each stage receives the fields extracted
  so far and the bytes, may add a field, passes the fields and the possibly shrunk bytes
  to the next stage, and keeps an unconsumed partial token across calls.  A stage is
  therefore a state of its own and a step that returns the new state and the messages
  sent to its target, in order.
\<close>

record ('t, 'p, 'f, 'g) filters =
  ts_init :: 'f
  ts_step :: "'f \<Rightarrow> ('t, 'p) message \<Rightarrow> 'f \<times> ('t, 'p) message list"
  pd0_init :: 'g
  pd0_step :: "'g \<Rightarrow> ('t, 'p) message \<Rightarrow> 'g \<times> ('t, 'p) message list"

text \<open>
  The local variable \<open>pipeline\<close> of \<open>run\<close>: the sink alone, or the timestamp filter
  in front of the ensemble filter in front of the sink, or a closed generator.  Sending
  to a closed generator raises \<open>StopIteration\<close>.
\<close>

datatype ('f, 'g) pipeline = Sink_Only | Filtered 'f 'g | Closed

datatype exn = StopIteration

text \<open>
  The state of an execution of \<open>run\<close>: the receiver, the pipeline, and how many calls
  of \<open>sock.recv\<close> and how many reads of the flag \<open>_active\<close> have been made.
\<close>

record ('t, 'p, 'w, 'f, 'g) exec =
  rcv :: "('t, 'p, 'w) receiver"
  pipe :: "('f, 'g) pipeline"
  n_recv :: nat
  n_reads :: nat

text \<open>A read of \<open>self._active\<close> by the loop, after the calls of \<open>end\<close> that precede it.\<close>

definition read_active ::
  "env \<Rightarrow> ('t, 'p, 'w, 'f, 'g) exec \<Rightarrow> bool \<times> ('t, 'p, 'w, 'f, 'g) exec" where
  "read_active e x =
     (let r = (if end_calls e (n_reads x) then receiver_end (rcv x) else rcv x)
      in (active r, x\<lparr>rcv := r, n_reads := Suc (n_reads x)\<rparr>))"

text \<open>
  \<open>_update_outfile\<close>: the buffer is written to the transcript, every newline replaced
  by a newline and the state, right-justified in 20 columns (the format \<open>%20s\<close>), when
  the prefix is asked for.
\<close>

definition rjust :: "nat \<Rightarrow> string \<Rightarrow> string" where
  "rjust n s = replicate (n - length s) (CHR '' '') @ s"

definition str_state :: "('t, 'p) externals \<Rightarrow> State option \<Rightarrow> string" where
  "str_state E st = (case st of None \<Rightarrow> ''None'' | Some v \<Rightarrow> str_State E v)"

definition replace_newline :: "string \<Rightarrow> string \<Rightarrow> string" where
  "replace_newline prefix buffer = concat (map (\<lambda>c. if c = newline then prefix else [c]) buffer)"

definition update_outfile ::
  "('t, 'p) externals \<Rightarrow> ('t, 'p, 'w) receiver \<Rightarrow> string \<Rightarrow> ('t, 'p, 'w) receiver" where
  "update_outfile E s buffer =
     (case outfile s of
        None \<Rightarrow> s
      | Some written \<Rightarrow>
          let buffer1 = (if prefix_state s
                         then replace_newline (newline # rjust 20 (str_state E (state s)) @ ''| '') buffer
                         else buffer)
          in s\<lparr>outfile := Some (written @ [buffer1])\<rparr>)"

text \<open>\<open>_end_outfile\<close> writes the mark that the receiver has ended.\<close>

definition END_MARK :: string where
  "END_MARK = [newline, newline] @ ''<_Receiver ended.>'' @ [newline, newline]"

definition end_outfile :: "('t, 'p, 'w) receiver \<Rightarrow> ('t, 'p, 'w) receiver" where
  "end_outfile s =
     (case outfile s of
        None \<Rightarrow> s
      | Some written \<Rightarrow> s\<lparr>outfile := Some (written @ [END_MARK])\<rparr>)"

text \<open>
  The \<open>while\<close> loop of \<open>_recv\<close>.  It may run forever (a socket that only times out),
  so it is a partial function: \<open>None\<close> is not returning.  \<open>Sock_Failed\<close> is the
  \<open>return None\<close> of the handler of \<open>socket.error\<close>; \<open>Loop_Done recv\<close> is the exit of
  the loop with the local variable \<open>recv\<close>.
\<close>

datatype recv_exit = Sock_Failed | Loop_Done "string option"

partial_function (option) recv_while ::
  "env \<Rightarrow> ('t, 'p, 'w, 'f, 'g) exec \<Rightarrow> string option
     \<Rightarrow> (recv_exit \<times> ('t, 'p, 'w, 'f, 'g) exec) option" where
  "recv_while e x recv =
     (let (a, x1) = read_active e x in
      if a \<and> recv = None then
        (case sock_recv e (n_recv x1) of
           Data d \<Rightarrow> recv_while e (x1\<lparr>n_recv := Suc (n_recv x1)\<rparr>) (Some d)
         | Timeout \<Rightarrow> recv_while e (x1\<lparr>n_recv := Suc (n_recv x1)\<rparr>) recv
         | SockError \<Rightarrow>
             Some (Sock_Failed,
                   x1\<lparr>n_recv := Suc (n_recv x1),
                      rcv := (log_append (rcv x1) Debug_Socket_Error)\<lparr>active := False\<rparr>\<rparr>))
      else Some (Loop_Done recv, x1))"

text \<open>
  \<open>_recv\<close>: after the loop the flag is read once more; a buffer is returned only when
  the receiver is active and the buffer is not empty.
\<close>

definition recv_method ::
  "('t, 'p) externals \<Rightarrow> env \<Rightarrow> ('t, 'p, 'w, 'f, 'g) exec
     \<Rightarrow> (string option \<times> ('t, 'p, 'w, 'f, 'g) exec) option" where
  "recv_method E e x =
     Option.bind (recv_while e (x\<lparr>rcv := log_append (rcv x) Debug_Reading\<rparr>) None)
       (\<lambda>(ex, x1).
          case ex of
            Sock_Failed \<Rightarrow> Some (None, x1)
          | Loop_Done recv \<Rightarrow>
              let (a, x2) = read_active e x1 in
              (case recv of
                 None \<Rightarrow> Some (None, x2)
               | Some d \<Rightarrow>
                   if a \<and> d \<noteq> [] then
                     let s1 = (rcv x2)\<lparr>recv_time := clock e (n_recv x2)\<rparr>;
                         s2 = log_append s1 (Debug_Read (length d));
                         s3 = update_outfile E s2 d
                     in Some (Some d, x2\<lparr>rcv := s3\<rparr>)
                   else Some (None, x2)))"

text \<open>
  Sending a message into the pipeline.  The filters are coroutines: each message the
  timestamp filter sends is handled by the ensemble filter, and each message that one
  sends is handled by the sink, before the timestamp filter goes on.
\<close>

fun feed_pd0 ::
  "('t, 'p, 'f, 'g) filters \<Rightarrow> ('t, 'p) externals \<Rightarrow> 'g \<Rightarrow> ('t, 'p, 'w) receiver
     \<Rightarrow> ('t, 'p) message list \<Rightarrow> 'g \<times> ('t, 'p, 'w) receiver" where
  "feed_pd0 F E g s [] = (g, s)"
| "feed_pd0 F E g s (m # ms) =
     (let (g1, out) = pd0_step F g m
      in feed_pd0 F E g1 (foldl (sink E) s out) ms)"

definition pipeline_send ::
  "('t, 'p, 'f, 'g) filters \<Rightarrow> ('t, 'p) externals \<Rightarrow> ('f, 'g) pipeline \<Rightarrow> ('t, 'p, 'w) receiver
     \<Rightarrow> ('t, 'p) message \<Rightarrow> exn + ('f, 'g) pipeline \<times> ('t, 'p, 'w) receiver" where
  "pipeline_send F E pl s m =
     (case pl of
        Sink_Only \<Rightarrow> Inr (Sink_Only, sink E s m)
      | Filtered f g \<Rightarrow>
          let (f1, out) = ts_step F f m;
              (g1, s1) = feed_pd0 F E g s out
          in Inr (Filtered f1 g1, s1)
      | Closed \<Rightarrow> Inl StopIteration)"

text \<open>
  The \<open>while\<close> loop of \<open>run\<close>, again a partial function.  An exception is a result
  \<open>Inl\<close>.
\<close>

partial_function (option) run_while ::
  "('t, 'p, 'f, 'g) filters \<Rightarrow> ('t, 'p) externals \<Rightarrow> env \<Rightarrow> ('t, 'p, 'w, 'f, 'g) exec
     \<Rightarrow> (exn + ('t, 'p, 'w, 'f, 'g) exec) option" where
  "run_while F E e x =
     (let (a, x1) = read_active e x in
      if a then
        Option.bind (recv_method E e x1)
          (\<lambda>(recv, x2).
             case recv of
               None \<Rightarrow> run_while F E e x2
             | Some d \<Rightarrow>
                 (case pipeline_send F E (pipe x2) (rcv x2) (no_xelems, d) of
                    Inl ex \<Rightarrow> Some (Inl ex)
                  | Inr (pl, s) \<Rightarrow> run_while F E e (x2\<lparr>pipe := pl, rcv := s\<rparr>)))
      else Some (Inr x1))"

text \<open>
  \<open>run\<close>: the part before the loop (\<open>run_start\<close>: the flag is set and the pipeline is
  built), the loop, and the part after it (\<open>run_finish\<close>: the pipeline is closed and
  the transcript is ended).
\<close>

definition build_pipeline ::
  "('t, 'p, 'f, 'g) filters \<Rightarrow> ('t, 'p, 'w) receiver \<Rightarrow> ('f, 'g) pipeline" where
  "build_pipeline F s = (if ooi_digi s then Sink_Only else Filtered (ts_init F) (pd0_init F))"

definition run_start ::
  "('t, 'p, 'f, 'g) filters \<Rightarrow> ('t, 'p, 'w) receiver \<Rightarrow> ('t, 'p, 'w, 'f, 'g) exec" where
  "run_start F s =
     (let s1 = log_append s Info_Running;
          s2 = s1\<lparr>active := True\<rparr>
      in \<lparr>rcv = s2, pipe = build_pipeline F s2, n_recv = 0, n_reads = 0\<rparr>)"

definition run_finish :: "('t, 'p, 'w, 'f, 'g) exec \<Rightarrow> ('t, 'p, 'w, 'f, 'g) exec" where
  "run_finish x = x\<lparr>pipe := Closed, rcv := log_append (end_outfile (rcv x)) Info_Ended\<rparr>"

definition run ::
  "('t, 'p, 'f, 'g) filters \<Rightarrow> ('t, 'p) externals \<Rightarrow> env \<Rightarrow> ('t, 'p, 'w) receiver
     \<Rightarrow> (exn + ('t, 'p, 'w, 'f, 'g) exec) option" where
  "run F E e s =
     Option.bind (run_while F E e (run_start F s))
       (\<lambda>r. case r of Inl ex \<Rightarrow> Some (Inl ex) | Inr x \<Rightarrow> Some (Inr (run_finish x)))"

subsection \<open>Notions used in the statements and proofs\<close>

text \<open>
  A stage run over a list of messages, one after the other: its final state and all
  the messages it sends.
\<close>

fun stage_run :: "('g \<Rightarrow> 'm \<Rightarrow> 'g \<times> 'm list) \<Rightarrow> 'g \<Rightarrow> 'm list \<Rightarrow> 'g \<times> 'm list" where
  "stage_run step g [] = (g, [])"
| "stage_run step g (m # ms) =
     (let (g1, out1) = step g m;
          (g2, out2) = stage_run step g1 ms
      in (g2, out1 @ out2))"

text \<open>
  What a completed line does to the history, on lists alone, and the number of entries
  the history holds after \<open>k\<close> completed lines when it started empty.
\<close>

definition hist_push :: "string list \<Rightarrow> string \<Rightarrow> string list" where
  "hist_push h l = (let h' = h @ [l] in if 1024 < length h' then drop (length h' - 1023) h' else h')"

definition kept :: "nat \<Rightarrow> nat" where
  "kept k = (if k \<le> 1024 then k else if even k then 1024 else 1023)"

text \<open>A log in which every transition record is between two different states.\<close>

definition changes_only :: "('t, 'p) log_record list \<Rightarrow> bool" where
  "changes_only lg = (\<forall>a b l. Transition a b l \<in> set lg \<longrightarrow> a \<noteq> b)"

text \<open>
  Concrete collaborators, for instances of the theorems: the prompt \<open>>\<close>, filters that
  pass every message on unchanged, a receiver with a transcript and a listener that
  records the ensembles it is called with, a socket that delivers a prompt line and then
  fails, and a socket whose every read returns zero bytes.
\<close>

definition example_externals :: "(unit, unit) externals" where
  "example_externals =
     \<lparr>PROMPT = ''>'', str_State = (\<lambda>st. case st of State_TBD \<Rightarrow> ''TBD'' | State_PROMPT \<Rightarrow> ''PROMPT''
          | State_COLLECTING_DATA \<Rightarrow> ''COLLECTING_DATA''),
      truth_ts = (\<lambda>_. True), truth_pd0 = (\<lambda>_. True)\<rparr>"

definition example_filters :: "(unit, unit, unit, unit) filters" where
  "example_filters =
     \<lparr>ts_init = (), ts_step = (\<lambda>f m. (f, [m])), pd0_init = (), pd0_step = (\<lambda>g m. (g, [m]))\<rparr>"

definition example_receiver :: "(unit, unit, unit list) receiver" where
  "example_receiver = new_receiver 4096 False (Some (\<lambda>p w. w @ [p])) (Some []) True []"

definition example_env :: env where
  "example_env =
     \<lparr>sock_recv = (\<lambda>i. if i = 0 then Data (''>'' @ [newline]) else SockError),
      end_calls = (\<lambda>k. False), clock = (\<lambda>i. i)\<rparr>"

definition idle_env :: env where
  "idle_env = \<lparr>sock_recv = (\<lambda>i. Data []), end_calls = (\<lambda>k. False), clock = (\<lambda>i. i)\<rparr>"

section \<open>Properties\<close>

subsection \<open>The line tracker\<close>

lemma update_lines_loop_append:
  "update_lines_loop n s (a @ b) =
     update_lines_loop (fst (update_lines_loop n s a)) (snd (update_lines_loop n s a)) b"
  by (induction a arbitrary: n s) simp_all

lemma line_completed_eq:
  "line_completed s = s\<lparr>last_line := new_line s, new_line := [], lines := hist_push (lines s) (new_line s)\<rparr>"
  by (simp add: line_completed_def hist_push_def Let_def py_slice_from_def MAX_NUM_LINES_def nat_diff_distrib)

lemma update_lines_loop_fst:
  "fst (update_lines_loop n s b) = n + length (filter (\<lambda>c. c = newline) b)"
  by (induction b arbitrary: n s) simp_all

lemma update_lines_loop_snd:
  "snd (update_lines_loop n s b) = snd (update_lines_loop 0 s b)"
proof (induction b arbitrary: n s)
  case Nil
  show ?case by simp
next
  case (Cons c cs)
  show ?case
    using Cons.IH [of "n + 1" "line_completed s"] Cons.IH [of 1 "line_completed s"]
          Cons.IH [of n] 
    by simp
qed

lemma update_lines_append:
  "snd (update_lines s (a @ b)) = snd (update_lines (snd (update_lines s a)) b)"
  unfolding update_lines_def
  by (simp add: update_lines_loop_append update_lines_loop_snd [of "fst _"])

lemma update_lines_fst:
  "fst (update_lines s b) = length (filter (\<lambda>c. c = newline) b)"
  by (simp add: update_lines_def update_lines_loop_fst)

lemma update_lines_loop_frame:
  "state (snd (update_lines_loop n s b)) = state s \<and>
   logged (snd (update_lines_loop n s b)) = logged s \<and>
   active (snd (update_lines_loop n s b)) = active s \<and>
   world (snd (update_lines_loop n s b)) = world s \<and>
   outfile (snd (update_lines_loop n s b)) = outfile s \<and>
   latest_pd0 (snd (update_lines_loop n s b)) = latest_pd0 s \<and>
   latest_ts (snd (update_lines_loop n s b)) = latest_ts s \<and>
   data_listener (snd (update_lines_loop n s b)) = data_listener s"
  by (induction b arbitrary: n s) (simp_all add: line_completed_eq)

lemma update_lines_frame:
  "state (snd (update_lines s b)) = state s" "logged (snd (update_lines s b)) = logged s"
  "active (snd (update_lines s b)) = active s" "world (snd (update_lines s b)) = world s"
  "outfile (snd (update_lines s b)) = outfile s"
  "latest_pd0 (snd (update_lines s b)) = latest_pd0 s"
  "data_listener (snd (update_lines s b)) = data_listener s"
  using update_lines_loop_frame [of 0 s b] by (simp_all add: update_lines_def)

lemma update_lines_loop_cong:
  "lines s = lines s' \<Longrightarrow> last_line s = last_line s' \<Longrightarrow> new_line s = new_line s' \<Longrightarrow>
   lines (snd (update_lines_loop n s b)) = lines (snd (update_lines_loop n s' b)) \<and>
   last_line (snd (update_lines_loop n s b)) = last_line (snd (update_lines_loop n s' b)) \<and>
   new_line (snd (update_lines_loop n s b)) = new_line (snd (update_lines_loop n s' b))"
proof (induction b arbitrary: n s s')
  case Nil
  then show ?case by simp
next
  case (Cons c cs)
  show ?case
  proof (cases "c = newline")
    case True
    have "lines (line_completed s) = lines (line_completed s')"
         "last_line (line_completed s) = last_line (line_completed s')"
         "new_line (line_completed s) = new_line (line_completed s')"
      using Cons.prems by (simp_all add: line_completed_eq)
    from Cons.IH [OF this, of "n + 1"] True show ?thesis by simp
  next
    case False
    have "lines (s\<lparr>new_line := new_line s @ [c]\<rparr>) = lines (s'\<lparr>new_line := new_line s' @ [c]\<rparr>)"
         "last_line (s\<lparr>new_line := new_line s @ [c]\<rparr>) = last_line (s'\<lparr>new_line := new_line s' @ [c]\<rparr>)"
         "new_line (s\<lparr>new_line := new_line s @ [c]\<rparr>) = new_line (s'\<lparr>new_line := new_line s' @ [c]\<rparr>)"
      using Cons.prems by simp_all
    from Cons.IH [OF this, of n] False show ?thesis by simp
  qed
qed

lemma update_lines_no_newline:
  "newline \<notin> set b \<Longrightarrow> last_line (snd (update_lines_loop n s b)) = last_line s \<and>
     lines (snd (update_lines_loop n s b)) = lines s \<and>
     new_line (snd (update_lines_loop n s b)) = new_line s @ b"
  by (induction b arbitrary: n s) auto

lemma set_state_tracker:
  "lines (set_state s st) = lines s \<and> last_line (set_state s st) = last_line s \<and>
   new_line (set_state s st) = new_line s \<and> state (set_state s st) = st"
  by (simp add: set_state_def log_append_def Let_def)

lemma buffer_received_tracker:
  "tracker (buffer_received E s b) =
     (let r = snd (update_lines s b) in
       (lines r, last_line r, new_line r,
        if rstrip (last_line r) = PROMPT E then Some State_PROMPT
        else if newline \<in> set b then None else state s))"
proof -
  obtain n r where u: "update_lines s b = (n, r)" by (cases "update_lines s b")
  have n: "n = length (filter (\<lambda>c. c = newline) b)"
    using update_lines_fst [of s b] u by simp
  have nz: "(n \<noteq> 0) = (newline \<in> set b)"
    unfolding n by (auto simp: filter_empty_conv)
  have st: "state r = state s"
    using update_lines_loop_frame [of 0 s b] u by (simp add: update_lines_def)
  show ?thesis
    using u nz st by (simp add: buffer_received_def tracker_def set_state_tracker Let_def)
qed

lemma update_lines_cong:
  assumes "tracker s = tracker s'"
  shows "lines (snd (update_lines s b)) = lines (snd (update_lines s' b))"
    and "last_line (snd (update_lines s b)) = last_line (snd (update_lines s' b))"
    and "new_line (snd (update_lines s b)) = new_line (snd (update_lines s' b))"
  using assms update_lines_loop_cong [of s s' 0 b]
  by (simp_all add: tracker_def update_lines_def)

lemma buffer_received_cong:
  assumes "tracker s = tracker s'"
  shows "tracker (buffer_received E s b) = tracker (buffer_received E s' b)"
proof -
  have "state s = state s'" using assms by (simp add: tracker_def)
  then show ?thesis
    using update_lines_cong [OF assms, of b]
    by (simp add: buffer_received_tracker Let_def)
qed

lemma buffer_received_two_chunks:
  "tracker (buffer_received E (buffer_received E s a) b) = tracker (buffer_received E s (a @ b))"
proof -
  define r1 where "r1 = snd (update_lines s a)"
  define s1 where "s1 = buffer_received E s a"
  define r2 where "r2 = snd (update_lines r1 b)"
  have t1: "tracker s1 = (lines r1, last_line r1, new_line r1,
        if rstrip (last_line r1) = PROMPT E then Some State_PROMPT
        else if newline \<in> set a then None else state s)"
    unfolding s1_def r1_def by (simp add: buffer_received_tracker Let_def)
  have same: "tracker (s1\<lparr>state := state r1\<rparr>) = tracker r1"
    using t1 by (simp add: tracker_def)
  have c: "lines (snd (update_lines s1 b)) = lines r2"
          "last_line (snd (update_lines s1 b)) = last_line r2"
          "new_line (snd (update_lines s1 b)) = new_line r2"
    using update_lines_loop_cong [of s1 r1 0 b] t1
    by (simp_all add: tracker_def update_lines_def r2_def)
  have r2: "snd (update_lines s (a @ b)) = r2"
    by (simp add: update_lines_append r1_def r2_def)
  have keep: "newline \<notin> set b \<Longrightarrow> last_line r2 = last_line r1"
    using update_lines_no_newline [of b 0 r1] by (simp add: r2_def update_lines_def)
  have st1: "state s1 = (if rstrip (last_line r1) = PROMPT E then Some State_PROMPT
        else if newline \<in> set a then None else state s)"
    using t1 by (simp add: tracker_def)
  show ?thesis
    using c r2 keep st1
    by (auto simp add: buffer_received_tracker [of E s1 b] buffer_received_tracker [of E s "a @ b"]
        Let_def s1_def [symmetric])
qed

lemma buffer_received_chunks:
  "cs \<noteq> [] \<Longrightarrow>
   tracker (foldl (buffer_received E) s cs) = tracker (buffer_received E s (concat cs))"
proof (induction cs arbitrary: s)
  case Nil
  then show ?case by simp
next
  case (Cons c cs)
  show ?case
  proof (cases "cs = []")
    case True
    then show ?thesis by simp
  next
    case False
    have "tracker (foldl (buffer_received E) (buffer_received E s c) cs) =
          tracker (buffer_received E (buffer_received E s c) (concat cs))"
      using Cons.IH [OF False] .
    then show ?thesis by (simp add: buffer_received_two_chunks)
  qed
qed

lemma sink_text:
  "sink E s (no_xelems, b) = (if b \<noteq> [] then buffer_received E s b else s)"
  by (simp add: sink_def no_xelems_def)

lemma sink_chunks:
  "tracker (foldl (\<lambda>s c. sink E s (no_xelems, c)) s cs) = tracker (sink E s (no_xelems, concat cs))"
proof (induction cs arbitrary: s)
  case Nil
  show ?case by (simp add: sink_text)
next
  case (Cons c cs)
  show ?case
  proof (cases "c = []")
    case True
    then show ?thesis using Cons.IH [of s] by (simp add: sink_text)
  next
    case False
    show ?thesis
    proof (cases "concat cs = []")
      case True
      have "tracker (foldl (\<lambda>s c. sink E s (no_xelems, c)) (buffer_received E s c) cs)
            = tracker (buffer_received E s c)"
        using Cons.IH [of "buffer_received E s c"] unfolding sink_text True by simp
      moreover have "foldl (\<lambda>s c. sink E s (no_xelems, c)) s (c # cs)
            = foldl (\<lambda>s c. sink E s (no_xelems, c)) (buffer_received E s c) cs"
        using False by (simp add: sink_text)
      moreover have "sink E s (no_xelems, concat (c # cs)) = buffer_received E s c"
        using False True by (simp add: sink_text del: concat_eq_Nil_conv)
      ultimately show ?thesis by simp
    next
      case c2: False
      then show ?thesis using Cons.IH [of "buffer_received E s c"] False
        by (simp add: sink_text buffer_received_two_chunks)
    qed
  qed
qed

lemma example_receiver_fields:
  "lines example_receiver = []" "new_line example_receiver = []" "last_line example_receiver = []"
  "state example_receiver = Some State_TBD" "world example_receiver = []"
  "logged example_receiver = [Transition None (Some State_TBD) []]"
  "data_listener example_receiver = Some (\<lambda>p w. w @ [p])"
  "active example_receiver = False" "outfile example_receiver = Some []"
  by (simp_all add: example_receiver_def new_receiver_def reset_internal_info_def set_state_def
      log_append_def Let_def)

text \<open>
  Claim C1 (chunking invariance of the line tracker).  For every byte sequence and every
  way of splitting it into successive chunks, handling the chunks one after the other
  leaves the same line history, last line, line in progress and conversational state as
  handling all the bytes in one call; a line split across chunks is carried in
  \<open>new_line\<close> and completed in the same way.  The first part is about the sink, which
  hands a buffer to \<open>_buffer_received\<close> only when it is not empty, for every list of
  chunks.  The second part is about \<open>_buffer_received\<close> called once per chunk, for at
  least one chunk: with no chunk nothing is called at all, while the single call with
  the empty buffer still looks at the last line.  The log is not compared: which
  transitions are logged on the way depends on the chunking.
\<close>

theorem chunking_invariance:
  "tracker (foldl (\<lambda>s c. sink E s (no_xelems, c)) s chunks)
     = tracker (sink E s (no_xelems, concat chunks))
   \<and> (chunks \<noteq> [] \<longrightarrow>
        tracker (foldl (buffer_received E) s chunks)
          = tracker (buffer_received E s (concat chunks)))"
  using sink_chunks [of E s chunks] buffer_received_chunks [of chunks E s] by simp

theorem chunking_invariance_witness:
  "tracker (foldl (buffer_received example_externals) example_receiver
       [''ab'', ''c'' @ [newline] @ ''>'', [newline]])
   = tracker (buffer_received example_externals example_receiver
       (''abc'' @ [newline] @ ''>'' @ [newline]))"
  using chunking_invariance [of example_externals example_receiver
      "[''ab'', ''c'' @ [newline] @ ''>'', [newline]]"]
  by simp

lemma hist_push_length: "length (hist_push h l) \<le> 1024"
  by (simp add: hist_push_def Let_def)

lemma update_lines_loop_bound:
  "length (lines s) \<le> 1024 \<Longrightarrow> length (lines (snd (update_lines_loop n s b))) \<le> 1024"
proof (induction b arbitrary: n s)
  case Nil
  then show ?case by simp
next
  case (Cons c cs)
  show ?case
  proof (cases "c = newline")
    case True
    have "length (lines (line_completed s)) \<le> 1024"
      by (simp add: line_completed_eq hist_push_length)
    from Cons.IH [OF this] True show ?thesis by simp
  next
    case False
    have "length (lines (s\<lparr>new_line := new_line s @ [c]\<rparr>)) \<le> 1024"
      using Cons.prems by simp
    from Cons.IH [OF this] False show ?thesis by simp
  qed
qed

lemma update_lines_one_line:
  assumes "newline \<notin> set l"
  shows "lines (snd (update_lines_loop n s (l @ [newline]))) = hist_push (lines s) (new_line s @ l)"
    and "new_line (snd (update_lines_loop n s (l @ [newline]))) = []"
    and "last_line (snd (update_lines_loop n s (l @ [newline]))) = new_line s @ l"
  using update_lines_no_newline [OF assms, of n s]
  by (simp_all add: update_lines_loop_append line_completed_eq)

lemma update_lines_terminated:
  "\<forall>l \<in> set ls. newline \<notin> set l \<Longrightarrow> new_line s = [] \<Longrightarrow>
   lines (snd (update_lines_loop n s (concat (map (\<lambda>l. l @ [newline]) ls))))
     = foldl hist_push (lines s) ls
   \<and> new_line (snd (update_lines_loop n s (concat (map (\<lambda>l. l @ [newline]) ls)))) = []"
proof (induction ls arbitrary: n s)
  case Nil
  then show ?case by simp
next
  case (Cons l ls)
  define s1 where "s1 = snd (update_lines_loop n s (l @ [newline]))"
  have l: "newline \<notin> set l" using Cons.prems by simp
  have a: "lines s1 = hist_push (lines s) l" "new_line s1 = []"
    using update_lines_one_line [OF l, of n s] Cons.prems(2) by (simp_all add: s1_def)
  have rest: "\<forall>l \<in> set ls. newline \<notin> set l" using Cons.prems by simp
  have "concat (map (\<lambda>l. l @ [newline]) (l # ls)) = (l @ [newline]) @ concat (map (\<lambda>l. l @ [newline]) ls)"
    by simp
  then have "snd (update_lines_loop n s (concat (map (\<lambda>l. l @ [newline]) (l # ls))))
      = snd (update_lines_loop (fst (update_lines_loop n s (l @ [newline]))) s1
            (concat (map (\<lambda>l. l @ [newline]) ls)))"
    by (simp only: update_lines_loop_append s1_def)
  then show ?case
    using Cons.IH [OF rest a(2), of "fst (update_lines_loop n s (l @ [newline]))"] a(1)
    by simp
qed

lemma foldl_hist_push:
  "foldl hist_push [] ls = drop (length ls - kept (length ls)) ls"
proof (induction ls rule: rev_induct)
  case Nil
  show ?case by simp
next
  case (snoc l ls)
  let ?k = "length ls"
  have le: "kept ?k \<le> ?k" by (simp add: kept_def)
  have len: "length (foldl hist_push [] ls) = kept ?k"
    using snoc.IH le by simp
  have app: "foldl hist_push [] ls @ [l] = drop (?k - kept ?k) (ls @ [l])"
    using snoc.IH by simp
  show ?case
  proof (cases "kept ?k = 1024")
    case True
    then have ev: "even ?k" "1024 \<le> ?k" by (auto simp: kept_def split: if_splits)
    then have k1: "kept (Suc ?k) = 1023" by (simp add: kept_def)
    have "hist_push (foldl hist_push [] ls) l = drop 2 (foldl hist_push [] ls @ [l])"
      using len True by (simp add: hist_push_def Let_def)
    also have "\<dots> = drop (2 + (?k - kept ?k)) (ls @ [l])"
      by (simp only: app drop_drop)
    also have "2 + (?k - kept ?k) = Suc ?k - kept (Suc ?k)"
      using True k1 ev by simp
    finally show ?thesis by simp
  next
    case False
    then have lt: "kept ?k < 1024" by (simp add: kept_def split: if_splits)
    have k1: "kept (Suc ?k) = Suc (kept ?k)"
      using False by (auto simp: kept_def split: if_splits)
    have "hist_push (foldl hist_push [] ls) l = foldl hist_push [] ls @ [l]"
      using len lt by (simp add: hist_push_def Let_def)
    also have "\<dots> = drop (?k - kept ?k) (ls @ [l])" by (rule app)
    also have "?k - kept ?k = Suc ?k - kept (Suc ?k)"
      using k1 le by simp
    finally show ?thesis by simp
  qed
qed

lemma buffer_received_lines:
  "lines (buffer_received E s b) = lines (snd (update_lines s b))"
  using buffer_received_tracker [of E s b] by (simp add: tracker_def Let_def)

lemma feed_lines:
  assumes nl: "\<forall>l \<in> set ls. newline \<notin> set l"
    and cs: "concat chunks = concat (map (\<lambda>l. l @ [newline]) ls)"
    and e: "lines s = []" "new_line s = []" and ne: "ls \<noteq> []"
  shows "lines (foldl (buffer_received E) s chunks) = drop (length ls - kept (length ls)) ls"
proof -
  have "concat chunks \<noteq> []" using cs ne by (cases ls) simp_all
  then have "chunks \<noteq> []" by auto
  then have "tracker (foldl (buffer_received E) s chunks) = tracker (buffer_received E s (concat chunks))"
    by (rule buffer_received_chunks)
  then have "lines (foldl (buffer_received E) s chunks) = lines (buffer_received E s (concat chunks))"
    by (simp add: tracker_def)
  also have "\<dots> = foldl hist_push (lines s) ls"
    using update_lines_terminated [OF nl e(2), of 0]
    by (simp add: buffer_received_lines cs update_lines_def)
  finally show ?thesis by (simp add: e foldl_hist_push)
qed

text \<open>
  Claim C2 (bound of the line history).  A new receiver has an empty history, and a call
  of \<open>_update_lines\<close> on a history of at most \<open>MAX_NUM_LINES = 1024\<close> entries returns
  with at most 1024 entries; so the history never holds more.  Feeding 2000 lines,
  each ended by a newline, in any chunking, to a receiver with an empty history and no
  line in progress leaves exactly the last 1024 of them, the lines 977 to 2000.
  (After \<open>k > 1024\<close> lines the history holds 1024 entries when \<open>k\<close> is even and 1023
  when it is odd, see \<open>foldl_hist_push\<close>; 2000 is even.)
\<close>

theorem line_history_bound:
  fixes s :: "('t, 'p, 'w) receiver"
  shows
  "int (length (lines (new_receiver bsz digi listener out pfx w :: ('t, 'p, 'w) receiver)))
      \<le> MAX_NUM_LINES
   \<and> (int (length (lines s)) \<le> MAX_NUM_LINES \<longrightarrow>
      int (length (lines (snd (update_lines s buffer)))) \<le> MAX_NUM_LINES)
   \<and> (length ls = 2000 \<and> (\<forall>l \<in> set ls. newline \<notin> set l) \<and>
        concat chunks = concat (map (\<lambda>l. l @ [newline]) ls) \<and>
        lines s = [] \<and> new_line s = [] \<longrightarrow>
        lines (foldl (buffer_received E) s chunks) = drop 976 ls \<and>
        length (lines (foldl (buffer_received E) s chunks)) = 1024)"
proof (intro conjI impI)
  show "int (length (lines (new_receiver bsz digi listener out pfx w :: ('t, 'p, 'w) receiver)))
      \<le> MAX_NUM_LINES"
    by (simp add: new_receiver_def reset_internal_info_def set_state_def log_append_def
        Let_def MAX_NUM_LINES_def)
next
  assume "int (length (lines s)) \<le> MAX_NUM_LINES"
  then have "length (lines s) \<le> 1024" by (simp add: MAX_NUM_LINES_def)
  from update_lines_loop_bound [OF this, of 0 buffer]
  show "int (length (lines (snd (update_lines s buffer)))) \<le> MAX_NUM_LINES"
    by (simp add: MAX_NUM_LINES_def update_lines_def)
next
  assume a: "length ls = 2000 \<and> (\<forall>l \<in> set ls. newline \<notin> set l) \<and>
        concat chunks = concat (map (\<lambda>l. l @ [newline]) ls) \<and>
        lines s = [] \<and> new_line s = []"
  then have ne: "ls \<noteq> []" by auto
  have "lines (foldl (buffer_received E) s chunks) = drop (length ls - kept (length ls)) ls"
    using feed_lines [of ls chunks s E] a ne by simp
  then have d: "lines (foldl (buffer_received E) s chunks) = drop 976 ls"
    using a by (simp add: kept_def)
  show "lines (foldl (buffer_received E) s chunks) = drop 976 ls" by (rule d)
  show "length (lines (foldl (buffer_received E) s chunks)) = 1024"
    using d a by simp
qed

theorem line_history_bound_witness:
  "int (length (lines (snd (update_lines example_receiver ''abc'')))) \<le> MAX_NUM_LINES
   \<and> lines (foldl (buffer_received example_externals) example_receiver
        (map (\<lambda>l. l @ [newline]) (replicate 2000 ''a''))) = drop 976 (replicate 2000 ''a'')
   \<and> length (lines (foldl (buffer_received example_externals) example_receiver
        (map (\<lambda>l. l @ [newline]) (replicate 2000 ''a'')))) = 1024"
  using line_history_bound [of 4096 False "Some (\<lambda>p w. w @ [p])" "Some []" True "[]"
      example_receiver "''abc''" "replicate 2000 ''a''"
      "map (\<lambda>l. l @ [newline]) (replicate 2000 ''a'')" example_externals]
  by (simp add: example_receiver_fields MAX_NUM_LINES_def newline_def)

lemma line_completed_lines:
  "lines (snd (update_lines (s\<lparr>lines := h, new_line := l\<rparr>) [newline])) = hist_push h l"
  by (simp add: update_lines_def line_completed_eq)

text \<open>
  Claim C3 (the eviction keeps the newest \<open>MAX_NUM_LINES\<close> entries).  The code does
  not: when the completed line makes the count 1025, the slice
  \<open>self._lines[1 - self.MAX_NUM_LINES:]\<close> keeps the newest 1023 entries, one fewer than
  the claim says.  The theorem evaluates \<open>_update_lines\<close> on a history of 1024 lines
  \<open>x\<close>, the line \<open>y\<close> in progress and the buffer of one newline: 1022 lines \<open>x\<close>
  and the line \<open>y\<close> remain.
\<close>

theorem eviction_keeps_1023:
  "lines (snd (update_lines (example_receiver\<lparr>lines := replicate 1024 ''x'', new_line := ''y''\<rparr>)
      [newline])) = replicate 1022 ''x'' @ [''y'']
   \<and> length (lines (snd (update_lines
        (example_receiver\<lparr>lines := replicate 1024 ''x'', new_line := ''y''\<rparr>) [newline]))) = 1023"
  by (simp add: line_completed_lines hist_push_def Let_def)

subsection \<open>The state machine and the sink\<close>

lemma hist_push_last: "hist_push h l \<noteq> [] \<and> last (hist_push h l) = l"
  by (simp add: hist_push_def Let_def)

lemma update_lines_last_line:
  "newline \<in> set b \<Longrightarrow>
   lines (snd (update_lines_loop n s b)) \<noteq> [] \<and>
   last_line (snd (update_lines_loop n s b)) = last (lines (snd (update_lines_loop n s b)))"
proof -
  assume "newline \<in> set b"
  then obtain a c where b: "b = a @ newline # c" and c: "newline \<notin> set c"
    by (auto dest: split_list_last)
  define s1 where "s1 = snd (update_lines_loop n s a)"
  define s2 where "s2 = line_completed s1"
  have s2: "lines s2 \<noteq> [] \<and> last_line s2 = last (lines s2)"
    by (simp add: s2_def line_completed_eq hist_push_last)
  have "snd (update_lines_loop n s b) = snd (update_lines_loop 0 s2 c)"
    unfolding b s1_def s2_def
    by (simp add: update_lines_loop_append update_lines_loop_snd [of "Suc _"]
        update_lines_loop_snd [of "fst _"])
  then show ?thesis
    using update_lines_no_newline [OF c, of 0 s2] s2 by simp
qed

text \<open>
  Claim C4 (the state after a text buffer).  For every received buffer: when the most
  recently completed line, without its trailing whitespace, is the prompt marker, the
  state becomes \<open>State.PROMPT\<close>; otherwise, when at least one line was completed in
  the buffer, the state becomes the unset marker \<open>None\<close>; both whatever the state was
  before.  When a line was completed in the buffer, the most recently completed line is
  the last entry of the history.
\<close>

theorem buffer_received_state:
  "(rstrip (last_line (buffer_received E s buffer)) = PROMPT E \<longrightarrow>
      state (buffer_received E s buffer) = Some State_PROMPT)
   \<and> (rstrip (last_line (buffer_received E s buffer)) \<noteq> PROMPT E \<and>
        fst (update_lines s buffer) \<noteq> 0 \<longrightarrow>
      state (buffer_received E s buffer) = None)
   \<and> (fst (update_lines s buffer) \<noteq> 0 \<longrightarrow>
        lines (buffer_received E s buffer) \<noteq> [] \<and>
        last_line (buffer_received E s buffer) = last (lines (buffer_received E s buffer)))"
proof -
  have t: "tracker (buffer_received E s buffer) =
     (let r = snd (update_lines s buffer) in
       (lines r, last_line r, new_line r,
        if rstrip (last_line r) = PROMPT E then Some State_PROMPT
        else if newline \<in> set buffer then None else state s))"
    by (rule buffer_received_tracker)
  have nz: "(fst (update_lines s buffer) \<noteq> 0) = (newline \<in> set buffer)"
    by (auto simp: update_lines_fst filter_empty_conv)
  have l: "newline \<in> set buffer \<Longrightarrow>
     lines (snd (update_lines s buffer)) \<noteq> [] \<and>
     last_line (snd (update_lines s buffer)) = last (lines (snd (update_lines s buffer)))"
    unfolding update_lines_def by (rule update_lines_last_line)
  show ?thesis
    using t l unfolding nz by (auto simp: tracker_def Let_def)
qed

theorem buffer_received_state_witness:
  "state (buffer_received example_externals example_receiver (''>'' @ [newline])) = Some State_PROMPT
   \<and> state (buffer_received example_externals
        (buffer_received example_externals example_receiver (''>'' @ [newline]))
        (''abc'' @ [newline])) = None
   \<and> last_line (buffer_received example_externals example_receiver (''>'' @ [newline]))
        = last (lines (buffer_received example_externals example_receiver (''>'' @ [newline])))"
  using buffer_received_state [of example_externals example_receiver "''>'' @ [newline]"]
    buffer_received_state [of example_externals
        "buffer_received example_externals example_receiver (''>'' @ [newline])"
        "''abc'' @ [newline]"]
  by (simp add: buffer_received_def update_lines_def line_completed_eq hist_push_def
      example_receiver_fields example_externals_def rstrip_def is_space_def newline_def
      set_state_def log_append_def Let_def)

lemma set_state_frame:
  "active (set_state s st) = active s" "outfile (set_state s st) = outfile s"
  "world (set_state s st) = world s" "data_listener (set_state s st) = data_listener s"
  "latest_pd0 (set_state s st) = latest_pd0 s"
  by (simp_all add: set_state_def log_append_def Let_def)

lemma buffer_received_frame:
  "active (buffer_received E s b) = active s" "outfile (buffer_received E s b) = outfile s"
  "world (buffer_received E s b) = world s" "data_listener (buffer_received E s b) = data_listener s"
  "latest_pd0 (buffer_received E s b) = latest_pd0 s"
proof -
  obtain n r where u: "update_lines s b = (n, r)" by (cases "update_lines s b")
  have r: "active r = active s" "outfile r = outfile s" "world r = world s"
      "data_listener r = data_listener s" "latest_pd0 r = latest_pd0 s"
    using update_lines_frame [of s b] u by simp_all
  show "active (buffer_received E s b) = active s" "outfile (buffer_received E s b) = outfile s"
    "world (buffer_received E s b) = world s"
    "data_listener (buffer_received E s b) = data_listener s"
    "latest_pd0 (buffer_received E s b) = latest_pd0 s"
    using r by (simp_all add: buffer_received_def u set_state_frame)
qed

lemma timestamp_received_frame:
  "active (timestamp_received s ts) = active s" "outfile (timestamp_received s ts) = outfile s"
  "world (timestamp_received s ts) = world s"
  "data_listener (timestamp_received s ts) = data_listener s"
  "state (timestamp_received s ts) = state s"
  by (simp_all add: timestamp_received_def log_append_def)

lemma pd0_received_frame:
  "active (pd0_received s p) = active s" "outfile (pd0_received s p) = outfile s"
  "data_listener (pd0_received s p) = data_listener s"
  by (simp_all add: pd0_received_def set_state_frame log_append_def Let_def split: option.splits)

lemma sink_frame:
  "active (sink E s m) = active s" "outfile (sink E s m) = outfile s"
  by (simp_all add: sink_def Let_def buffer_received_frame pd0_received_frame
      timestamp_received_frame split: option.splits)

text \<open>
  Claim C5 (an ensemble delivered to the sink).  \<open>_pd0_received\<close> sets the state to
  \<open>State.COLLECTING_DATA\<close> whatever it was before, overwrites the latest ensemble with
  the new one, and calls the data listener, when there is one, exactly once with the
  ensemble: the listener's world is the old one after one application.  For a message
  of the sink that carries an ensemble (one that Python takes as true) this is what the
  sink does; the text of the same message is handled afterwards and leaves the latest
  ensemble and the listener's world as they are, so after a message without text the
  state is \<open>State.COLLECTING_DATA\<close>.
\<close>

theorem ensemble_received:
  "state (pd0_received s pd0) = Some State_COLLECTING_DATA
   \<and> latest_pd0 (pd0_received s pd0) = Some pd0
   \<and> world (pd0_received s pd0) =
       (case data_listener s of Some listener \<Rightarrow> listener pd0 (world s) | None \<Rightarrow> world s)
   \<and> (x_pd0 x = Some pd0 \<and> truth_pd0 E pd0 \<longrightarrow>
        state (sink E s (x, [])) = Some State_COLLECTING_DATA \<and>
        latest_pd0 (sink E s (x, buffer)) = Some pd0 \<and>
        world (sink E s (x, buffer)) =
          (case data_listener s of Some listener \<Rightarrow> listener pd0 (world s) | None \<Rightarrow> world s))"
proof -
  have p: "state (pd0_received t pd0) = Some State_COLLECTING_DATA
     \<and> latest_pd0 (pd0_received t pd0) = Some pd0
     \<and> world (pd0_received t pd0) =
       (case data_listener t of Some listener \<Rightarrow> listener pd0 (world t) | None \<Rightarrow> world t)"
    for t :: "('a, 'b, 'c) receiver"
    by (simp add: pd0_received_def set_state_def log_append_def Let_def split: option.splits)
  show ?thesis
    using p [of s]
    by (auto simp: sink_def Let_def buffer_received_frame timestamp_received_frame p
        split: option.splits)
qed

theorem ensemble_received_witness:
  "state (sink example_externals example_receiver (\<lparr>x_latest_ts = None, x_pd0 = Some ()\<rparr>, []))
      = Some State_COLLECTING_DATA
   \<and> world (sink example_externals example_receiver
        (\<lparr>x_latest_ts = None, x_pd0 = Some ()\<rparr>, ''abc'')) = [()]"
  using ensemble_received [of example_receiver "()" "\<lparr>x_latest_ts = None, x_pd0 = Some ()\<rparr>"
      example_externals "''abc''"]
  by (simp add: example_externals_def example_receiver_fields)

lemma set_state_logged:
  "logged (set_state s st) =
     logged s @ (if state s = st then []
                 else Transition (state s) st (last_line s) #
                      (if last_line s = [] then [] else [Debug_Lines (lines s)]))"
  by (simp add: set_state_def log_append_def Let_def)

lemma changes_only_set_state:
  "changes_only (logged s) \<Longrightarrow> changes_only (logged (set_state s st))"
  by (auto simp: changes_only_def set_state_logged)

lemma changes_only_buffer_received:
  assumes "changes_only (logged s)"
  shows "changes_only (logged (buffer_received E s b))"
proof -
  obtain n r where u: "update_lines s b = (n, r)" by (cases "update_lines s b")
  have "logged r = logged s" using update_lines_frame(2) [of s b] u by simp
  then have "changes_only (logged r)" using assms by simp
  then show ?thesis
    using changes_only_set_state [of r "Some State_PROMPT"]
    by (simp add: buffer_received_def u)
qed

lemma changes_only_timestamp_received:
  "changes_only (logged s) \<Longrightarrow> changes_only (logged (timestamp_received s ts))"
  by (auto simp: changes_only_def timestamp_received_def log_append_def)

lemma changes_only_pd0_received:
  assumes "changes_only (logged s)"
  shows "changes_only (logged (pd0_received s p))"
proof -
  have "logged (pd0_received s p) = logged (set_state s (Some State_COLLECTING_DATA)) @ [Debug_PD0 p]"
    by (simp add: pd0_received_def log_append_def Let_def split: option.splits)
  then show ?thesis
    using changes_only_set_state [OF assms, of "Some State_COLLECTING_DATA"]
    by (auto simp: changes_only_def)
qed

lemma changes_only_sink:
  "changes_only (logged s) \<Longrightarrow> changes_only (logged (sink E s m))"
  by (simp add: sink_def Let_def changes_only_buffer_received changes_only_pd0_received
      changes_only_timestamp_received split: option.splits)

lemma changes_only_foldl_sink:
  "changes_only (logged s) \<Longrightarrow> changes_only (logged (foldl (sink E) s ms))"
  by (induction ms arbitrary: s) (simp_all add: changes_only_sink)

lemma changes_only_new_receiver:
  "changes_only (logged (new_receiver bsz digi listener out pfx w))"
  by (simp add: changes_only_def new_receiver_def reset_internal_info_def set_state_logged)

text \<open>
  Claim C6 (transitions are logged only for changes).  \<open>_set_state\<close> with the state
  the receiver already holds changes nothing and logs nothing.  With another state it
  logs one transition record, from the held state to the new one (followed by the lines
  when the last line is not empty), and the held state becomes the new one.  Hence in
  the log of a new receiver after any sequence of messages to its sink, every
  transition record is between two different states.
\<close>

theorem transition_logging:
  "(state s = st \<longrightarrow> set_state s st = s)
   \<and> (state s \<noteq> st \<longrightarrow>
        state (set_state s st) = st \<and>
        logged (set_state s st) =
          logged s @ Transition (state s) st (last_line s) #
            (if last_line s = [] then [] else [Debug_Lines (lines s)]))
   \<and> (Transition a b l \<in> set (logged (foldl (sink E) (new_receiver bsz digi listener out pfx w) ms))
        \<longrightarrow> a \<noteq> b)"
proof -
  have same: "state s = st \<Longrightarrow> set_state s st = s"
    by (simp add: set_state_def)
  have differ: "state s \<noteq> st \<Longrightarrow> state (set_state s st) = st \<and>
        logged (set_state s st) =
          logged s @ Transition (state s) st (last_line s) #
            (if last_line s = [] then [] else [Debug_Lines (lines s)])"
    by (simp add: set_state_logged) (simp add: set_state_def log_append_def Let_def)
  have trace: "Transition a b l \<in> set (logged (foldl (sink E)
        (new_receiver bsz digi listener out pfx w) ms)) \<Longrightarrow> a \<noteq> b"
    using changes_only_foldl_sink [OF changes_only_new_receiver, of E bsz digi listener out pfx w ms]
    unfolding changes_only_def by blast
  show ?thesis using same differ trace by blast
qed

theorem transition_logging_witness:
  "set_state example_receiver (Some State_TBD) = example_receiver
   \<and> state (set_state example_receiver (Some State_PROMPT)) = Some State_PROMPT
   \<and> logged (set_state example_receiver (Some State_PROMPT)) =
       [Transition None (Some State_TBD) [], Transition (Some State_TBD) (Some State_PROMPT) []]
   \<and> (None :: State option) \<noteq> Some State_TBD"
  using transition_logging [of example_receiver "Some State_TBD" None "Some State_TBD" "[]"
      example_externals 4096 False "Some (\<lambda>p w. w @ [p])" "Some []" True "[]" "[]"]
    transition_logging [of example_receiver "Some State_PROMPT" None "Some State_TBD" "[]"
      example_externals 4096 False "Some (\<lambda>p w. w @ [p])" "Some []" True "[]" "[]"]
  by (simp add: example_receiver_fields)

subsection \<open>The read loop\<close>

lemma foldl_sink_frame:
  "active (foldl (sink E) s ms) = active s \<and> outfile (foldl (sink E) s ms) = outfile s"
  by (induction ms arbitrary: s) (simp_all add: sink_frame)

lemma feed_pd0_frame:
  "active (snd (feed_pd0 F E g s ms)) = active s \<and> outfile (snd (feed_pd0 F E g s ms)) = outfile s"
  by (induction ms arbitrary: g s) (simp_all add: foldl_sink_frame split: prod.splits)

lemma pipeline_send_open:
  assumes "pl \<noteq> Closed"
  shows "\<exists>pl' s'. pipeline_send F E pl s m = Inr (pl', s') \<and> pl' \<noteq> Closed \<and>
     active s' = active s \<and> outfile s' = outfile s"
proof (cases pl)
  case Sink_Only
  then show ?thesis by (simp add: pipeline_send_def sink_frame)
next
  case (Filtered f g)
  obtain f1 out where t: "ts_step F f m = (f1, out)" by (cases "ts_step F f m")
  obtain g1 s1 where p: "feed_pd0 F E g s out = (g1, s1)" by (cases "feed_pd0 F E g s out")
  have "active s1 = active s \<and> outfile s1 = outfile s"
    using feed_pd0_frame [of F E g s out] p by simp
  then show ?thesis by (simp add: pipeline_send_def Filtered t p)
next
  case Closed
  then show ?thesis using assms by simp
qed

lemma read_active_fst: "fst (read_active e x) = (active (rcv x) \<and> \<not> end_calls e (n_reads x))"
  by (simp add: read_active_def receiver_end_def Let_def)

lemma read_active_snd:
  "active (rcv (snd (read_active e x))) = fst (read_active e x)"
  "n_recv (snd (read_active e x)) = n_recv x" "pipe (snd (read_active e x)) = pipe x"
  "n_reads (snd (read_active e x)) = Suc (n_reads x)"
  "outfile (rcv (snd (read_active e x))) = outfile (rcv x)"
  by (simp_all add: read_active_def receiver_end_def Let_def)

lemma recv_while_Some:
  "recv_while e x (Some d) = Some (Loop_Done (Some d), snd (read_active e x))"
  by (subst recv_while.simps) (simp split: prod.splits)

lemma recv_while_terminates:
  assumes err: "sock_recv e n = SockError"
  shows "n_recv x \<le> n \<Longrightarrow>
     \<exists>ex x'. recv_while e x None = Some (ex, x') \<and> pipe x' = pipe x \<and> n_recv x' \<le> Suc n \<and>
        (\<not> active (rcv x') \<or> (n_recv x < n_recv x' \<and> n_recv x' \<le> n))"
proof (induction k \<equiv> "n - n_recv x" arbitrary: x)
  case 0
  obtain a x1 where r: "read_active e x = (a, x1)" by (cases "read_active e x")
  have x1: "active (rcv x1) = a" "n_recv x1 = n_recv x" "pipe x1 = pipe x"
    using read_active_snd [of e x] r by simp_all
  have n: "n_recv x = n" using 0 by simp
  show ?case
    by (subst recv_while.simps) (simp add: r x1 n err)
next
  case (Suc k)
  obtain a x1 where r: "read_active e x = (a, x1)" by (cases "read_active e x")
  have x1: "active (rcv x1) = a" "n_recv x1 = n_recv x" "pipe x1 = pipe x"
    using read_active_snd [of e x] r by simp_all
  have lt: "n_recv x < n" using Suc.hyps(2) by simp
  show ?case
  proof (cases a)
    case False
    then show ?thesis
      using lt by (subst recv_while.simps) (simp add: r x1)
  next
    case True
    let ?x2 = "x1\<lparr>n_recv := Suc (n_recv x1)\<rparr>"
    show ?thesis
    proof (cases "sock_recv e (n_recv x)")
      case (Data d)
      have "recv_while e x None = Some (Loop_Done (Some d), snd (read_active e ?x2))"
        by (subst recv_while.simps) (simp add: r x1 True Data recv_while_Some)
      then show ?thesis
        using lt x1 by (simp add: read_active_snd)
    next
      case Timeout
      have k: "k = n - n_recv ?x2" using Suc.hyps(2) x1 by simp
      have le: "n_recv ?x2 \<le> n" using lt x1 by simp
      obtain ex x' where h: "recv_while e ?x2 None = Some (ex, x')" "pipe x' = pipe ?x2"
          "n_recv x' \<le> Suc n" "\<not> active (rcv x') \<or> (n_recv ?x2 < n_recv x' \<and> n_recv x' \<le> n)"
        using Suc.hyps(1) [OF k le] by blast
      have "recv_while e x None = Some (ex, x')"
        using h(1) recv_while.simps [of e x None] by (simp add: r x1 True Timeout)
      then show ?thesis using h x1 by auto
    next
      case SockError
      show ?thesis
        by (subst recv_while.simps) (simp add: r x1 True SockError lt less_imp_le)
    qed
  qed
qed

lemma update_outfile_frame:
  "active (update_outfile E s d) = active s"
  by (simp add: update_outfile_def Let_def split: option.splits)

lemma recv_method_terminates:
  assumes err: "sock_recv e n = SockError" and le: "n_recv x \<le> n"
  shows "\<exists>r x'. recv_method E e x = Some (r, x') \<and> pipe x' = pipe x \<and> n_recv x' \<le> Suc n \<and>
        (\<not> active (rcv x') \<or> (n_recv x < n_recv x' \<and> n_recv x' \<le> n))"
proof -
  let ?x0 = "x\<lparr>rcv := log_append (rcv x) Debug_Reading\<rparr>"
  have "n_recv ?x0 \<le> n" using le by simp
  from recv_while_terminates [OF err this]
  obtain ex x1 where h: "recv_while e ?x0 None = Some (ex, x1)" "pipe x1 = pipe x"
      "n_recv x1 \<le> Suc n" "\<not> active (rcv x1) \<or> (n_recv x < n_recv x1 \<and> n_recv x1 \<le> n)"
    by auto
  obtain a x2 where r: "read_active e x1 = (a, x2)" by (cases "read_active e x1")
  have x2: "active (rcv x2) = a" "n_recv x2 = n_recv x1" "pipe x2 = pipe x1"
    using read_active_snd [of e x1] r by simp_all
  have a: "a \<Longrightarrow> active (rcv x1)" using read_active_fst [of e x1] r by simp
  show ?thesis
  proof (cases ex)
    case Sock_Failed
    then show ?thesis using h by (simp add: recv_method_def)
  next
    case (Loop_Done recv)
    show ?thesis
    proof (cases recv)
      case None
      then show ?thesis using h x2 a Loop_Done by (auto simp: recv_method_def r)
    next
      case (Some d)
      then show ?thesis using h x2 a Loop_Done
        by (auto simp: recv_method_def r Let_def update_outfile_frame log_append_def)
    qed
  qed
qed

lemma run_while_inactive:
  assumes "\<not> active (rcv x)"
  shows "run_while F E e x = Some (Inr (snd (read_active e x)))"
proof -
  obtain a x1 where r: "read_active e x = (a, x1)" by (cases "read_active e x")
  have "\<not> a" using read_active_fst [of e x] r assms by simp
  then show ?thesis using run_while.simps [of F E e x] by (simp add: r)
qed

lemma run_while_terminates:
  assumes err: "sock_recv e n = SockError"
  shows "pipe x \<noteq> Closed \<Longrightarrow> n_recv x \<le> n \<or> \<not> active (rcv x) \<Longrightarrow> n_recv x \<le> Suc n \<Longrightarrow>
     \<exists>x'. run_while F E e x = Some (Inr x') \<and> \<not> active (rcv x') \<and> n_recv x' \<le> Suc n \<and>
        pipe x' \<noteq> Closed"
proof (induction "Suc n - n_recv x" arbitrary: x rule: less_induct)
  case less
  obtain a x1 where r: "read_active e x = (a, x1)" by (cases "read_active e x")
  have x1: "active (rcv x1) = a" "n_recv x1 = n_recv x" "pipe x1 = pipe x"
    using read_active_snd [of e x] r by simp_all
  have a: "a \<Longrightarrow> active (rcv x)" using read_active_fst [of e x] r by simp
  show ?case
  proof (cases a)
    case False
    have "run_while F E e x = Some (Inr x1)"
      using run_while.simps [of F E e x] by (simp add: r False)
    then show ?thesis using x1 False less.prems by simp
  next
    case True
    then have le: "n_recv x1 \<le> n" using a less.prems x1 by auto
    from recv_method_terminates [OF err le, of E]
    obtain rv x2 where h: "recv_method E e x1 = Some (rv, x2)" "pipe x2 = pipe x1"
        "n_recv x2 \<le> Suc n" "\<not> active (rcv x2) \<or> (n_recv x1 < n_recv x2 \<and> n_recv x2 \<le> n)"
      by auto
    show ?thesis
    proof (cases rv)
      case None
      have step: "run_while F E e x = run_while F E e x2"
        using run_while.simps [of F E e x] by (simp add: r True h(1) None)
      show ?thesis
      proof (cases "active (rcv x2)")
        case False
        then show ?thesis
          using step h x1 less.prems
          by (simp add: run_while_inactive read_active_snd read_active_fst)
      next
        case act: True
        then have "Suc n - n_recv x2 < Suc n - n_recv x" using h(4) x1 by auto
        from less.hyps [OF this, of ] h x1 less.prems act
        show ?thesis unfolding step by auto
      qed
    next
      case (Some d)
      from pipeline_send_open [of "pipe x2" F E "rcv x2" "(no_xelems, d)"]
      obtain pl s where p: "pipeline_send F E (pipe x2) (rcv x2) (no_xelems, d) = Inr (pl, s)"
          "pl \<noteq> Closed" "active s = active (rcv x2)"
        using h(2) x1 less.prems(1) by auto
      let ?x3 = "x2\<lparr>pipe := pl, rcv := s\<rparr>"
      have step: "run_while F E e x = run_while F E e ?x3"
        using run_while.simps [of F E e x] by (simp add: r True h(1) Some p(1))
      show ?thesis
      proof (cases "active (rcv x2)")
        case False
        then have "\<not> active (rcv ?x3)" using p(3) by simp
        then show ?thesis
          using step h x1 less.prems p(2)
          by (simp add: run_while_inactive read_active_snd read_active_fst)
      next
        case act: True
        then have "Suc n - n_recv ?x3 < Suc n - n_recv x" using h(4) x1 by auto
        from less.hyps [OF this] h x1 less.prems act p(2)
        show ?thesis unfolding step by auto
      qed
    qed
  qed
qed

lemma recv_while_frame:
  assumes "recv_while e x recv = Some y"
  shows "pipe (snd y) = pipe x \<and>
     ((\<forall>k. \<not> end_calls e k) \<and> (\<forall>i. sock_recv e i \<noteq> SockError) \<longrightarrow>
        active (rcv (snd y)) = active (rcv x) \<and> fst y \<noteq> Sock_Failed)"
proof -
  let ?P = "\<lambda>e x (recv :: string option) y. pipe (snd y) = pipe x \<and>
     ((\<forall>k. \<not> end_calls e k) \<and> (\<forall>i. sock_recv e i \<noteq> SockError) \<longrightarrow>
        active (rcv (snd y)) = active (rcv x) \<and> fst y \<noteq> Sock_Failed)"
  have "(case ((e, x), recv) of (a, b) \<Rightarrow> (case a of (a, c) \<Rightarrow> ?P a c) b) y"
  proof (rule recv_while.raw_induct [where P = ?P], goal_cases)
    case (1 f e x recv y)
    obtain a x1 where r: "read_active e x = (a, x1)" by (cases "read_active e x")
    have x1: "active (rcv x1) = a" "n_recv x1 = n_recv x" "pipe x1 = pipe x"
      using read_active_snd [of e x] r by simp_all
    have a: "a = (active (rcv x) \<and> \<not> end_calls e (n_reads x))"
      using read_active_fst [of e x] r by simp
    show ?case
    proof (cases "a \<and> recv = None")
      case False
      then have "y = (Loop_Done recv, x1)" using 1(2) by (auto simp: r)
      then show ?thesis using x1 a by auto
    next
      case True
      let ?x2 = "x1\<lparr>n_recv := Suc (n_recv x1)\<rparr>"
      show ?thesis
      proof (cases "sock_recv e (n_recv x)")
        case (Data d)
        then have "f e ?x2 (Some d) = Some y" using 1(2) True by (simp add: r x1)
        from 1(1) [OF this] show ?thesis using x1 a True by auto
      next
        case Timeout
        then have "f e ?x2 recv = Some y" using 1(2) True by (simp add: r x1)
        from 1(1) [OF this] show ?thesis using x1 a True by auto
      next
        case SockError
        then show ?thesis using 1(2) True x1 by (auto simp: r)
      qed
    qed
  next
    case 2
    show ?case using assms by simp
  qed
  then show ?thesis by simp
qed

lemma recv_method_frame:
  assumes "recv_method E e x = Some (rv, x')"
  shows "pipe x' = pipe x \<and>
     ((\<forall>k. \<not> end_calls e k) \<and> (\<forall>i. sock_recv e i \<noteq> SockError) \<longrightarrow>
        active (rcv x') = active (rcv x))"
proof -
  let ?x0 = "x\<lparr>rcv := log_append (rcv x) Debug_Reading\<rparr>"
  obtain ex x1 where w: "recv_while e ?x0 None = Some (ex, x1)"
    using assms by (auto simp: recv_method_def Option.bind_eq_Some_conv)
  have f: "pipe x1 = pipe x"
     "(\<forall>k. \<not> end_calls e k) \<and> (\<forall>i. sock_recv e i \<noteq> SockError) \<longrightarrow>
        active (rcv x1) = active (rcv x) \<and> ex \<noteq> Sock_Failed"
    using recv_while_frame [OF w] by (simp_all add: log_append_def)
  obtain a x2 where r: "read_active e x1 = (a, x2)" by (cases "read_active e x1")
  have x2: "active (rcv x2) = a" "pipe x2 = pipe x1"
    using read_active_snd [of e x1] r by simp_all
  have a: "a = (active (rcv x1) \<and> \<not> end_calls e (n_reads x1))"
    using read_active_fst [of e x1] r by simp
  show ?thesis
    using assms w f x2 a
    by (auto simp: recv_method_def r Let_def update_outfile_frame log_append_def
        split: recv_exit.splits option.splits if_splits)
qed

lemma run_while_result:
  fixes F :: "('t, 'p, 'f, 'g) filters" and x :: "('t, 'p, 'w, 'f, 'g) exec"
  assumes "run_while F E e x = Some res" and "pipe x \<noteq> Closed"
  shows "\<exists>x'. res = Inr x' \<and> \<not> active (rcv x') \<and> pipe x' \<noteq> Closed"
proof -
  let ?P = "\<lambda>(F :: ('t, 'p, 'f, 'g) filters) (E :: ('t, 'p) externals) (e :: env)
      (x :: ('t, 'p, 'w, 'f, 'g) exec) res.
      pipe x \<noteq> Closed \<longrightarrow> (\<exists>x'. res = Inr x' \<and> \<not> active (rcv x') \<and> pipe x' \<noteq> Closed)"
  have "(case (((F, E), e), x) of
          (a, b) \<Rightarrow> (case a of (a, c) \<Rightarrow> (case a of (a, d) \<Rightarrow> ?P a d) c) b) res"
  proof (rule run_while.raw_induct [where P = ?P], goal_cases)
    case (1 f F E e x res)
    obtain a x1 where r: "read_active e x = (a, x1)" by (cases "read_active e x")
    have x1: "active (rcv x1) = a" "pipe x1 = pipe x"
      using read_active_snd [of e x] r by simp_all
    show ?case
    proof (cases a)
      case False
      then have "res = Inr x1" using 1(2) by (simp add: r)
      then show ?thesis using x1 False by simp
    next
      case True
      then obtain rv x2 where m: "recv_method E e x1 = Some (rv, x2)"
        using 1(2) by (auto simp: r Option.bind_eq_Some_conv)
      have p2: "pipe x2 = pipe x" using recv_method_frame [OF m] x1 by simp
      show ?thesis
      proof (cases rv)
        case None
        then have "f F E e x2 = Some res" using 1(2) True m by (simp add: r)
        from 1(1) [OF this] p2 show ?thesis by simp
      next
        case (Some d)
        show ?thesis
        proof
          assume op: "pipe x \<noteq> Closed"
          from pipeline_send_open [of "pipe x2" F E "rcv x2" "(no_xelems, d)"]
          obtain pl s where p: "pipeline_send F E (pipe x2) (rcv x2) (no_xelems, d) = Inr (pl, s)"
              "pl \<noteq> Closed"
            using p2 op by auto
          have "f F E e (x2\<lparr>pipe := pl, rcv := s\<rparr>) = Some res"
            using 1(2) True m Some p(1) by (simp add: r)
          from 1(1) [OF this] p(2)
          show "\<exists>x'. res = Inr x' \<and> \<not> active (rcv x') \<and> pipe x' \<noteq> Closed" by simp
        qed
      qed
    qed
  next
    case 2
    show ?case using assms(1) by simp
  qed
  then show ?thesis using assms(2) by simp
qed

lemma run_start_fields:
  "active (rcv (run_start F s))" "pipe (run_start F s) \<noteq> Closed" "n_recv (run_start F s) = 0"
  by (simp_all add: run_start_def build_pipeline_def log_append_def Let_def)

lemma run_finish_fields:
  "pipe (run_finish x) = Closed" "active (rcv (run_finish x)) = active (rcv x)"
  "outfile (rcv (run_finish x)) = map_option (\<lambda>written. written @ [END_MARK]) (outfile (rcv x))"
  by (simp_all add: run_finish_def end_outfile_def log_append_def split: option.splits)

lemma recv_method_sock_error:
  assumes "active (rcv x)" and "sock_recv e (n_recv x) = SockError"
    and "\<not> end_calls e (n_reads x)"
  shows "\<exists>x'. recv_method E e x = Some (None, x') \<and> \<not> active (rcv x') \<and>
      n_recv x' = Suc (n_recv x) \<and> pipe x' = pipe x \<and>
      tracker (rcv x') = tracker (rcv x) \<and> outfile (rcv x') = outfile (rcv x)"
  using assms
  by (simp add: recv_method_def recv_while.simps [of e _ None] read_active_def
        log_append_def tracker_def Let_def)

text \<open>
  Claim C7 (a socket error ends the loop).  When a call of \<open>sock.recv\<close> raises a
  socket error other than a timeout, \<open>_recv\<close> clears the flag \<open>_active\<close> and returns
  \<open>None\<close>, leaving the lines, the state and the transcript as they were.  When some
  call of \<open>sock.recv\<close> raises such an error, \<open>run\<close> returns, without an exception,
  with the flag cleared, and the loop makes no call of \<open>sock.recv\<close> after the failing
  one.  Whenever \<open>run\<close> returns, for whatever reason the loop was left, it returns
  without an exception and with the flag cleared.  After the loop the pipeline is
  closed and the transcript, when one is attached, is what it was when the loop was
  left followed by the end mark, written once.
\<close>

theorem socket_error_terminal:
  fixes F :: "('t, 'p, 'f, 'g) filters" and s :: "('t, 'p, 'w) receiver"
    and x :: "('t, 'p, 'w, 'f, 'g) exec"
  shows
  "(active (rcv x) \<and> \<not> end_calls e (n_reads x) \<and> sock_recv e (n_recv x) = SockError \<longrightarrow>
      (\<exists>x'. recv_method E e x = Some (None, x') \<and> \<not> active (rcv x') \<and>
         n_recv x' = Suc (n_recv x) \<and> pipe x' = pipe x \<and>
         tracker (rcv x') = tracker (rcv x) \<and> outfile (rcv x') = outfile (rcv x)))
   \<and> (sock_recv e n = SockError \<longrightarrow>
      (\<exists>y. run_while F E e (run_start F s) = Some (Inr y) \<and> \<not> active (rcv y) \<and>
           n_recv y \<le> Suc n \<and> run F E e s = Some (Inr (run_finish y))))
   \<and> (run F E e s = Some res \<longrightarrow>
      (\<exists>y. run_while F E e (run_start F s) = Some (Inr y) \<and> \<not> active (rcv y) \<and>
           res = Inr (run_finish y)))
   \<and> pipe (run_finish x) = Closed
   \<and> active (rcv (run_finish x)) = active (rcv x)
   \<and> outfile (rcv (run_finish x)) =
        map_option (\<lambda>written. written @ [END_MARK]) (outfile (rcv x))"
proof -
  have step: "active (rcv x) \<and> \<not> end_calls e (n_reads x) \<and> sock_recv e (n_recv x) = SockError \<Longrightarrow>
      (\<exists>x'. recv_method E e x = Some (None, x') \<and> \<not> active (rcv x') \<and>
         n_recv x' = Suc (n_recv x) \<and> pipe x' = pipe x \<and>
         tracker (rcv x') = tracker (rcv x) \<and> outfile (rcv x') = outfile (rcv x))"
    using recv_method_sock_error [of x e E] by simp
  have stops: "\<exists>y. run_while F E e (run_start F s) = Some (Inr y) \<and> \<not> active (rcv y) \<and>
           n_recv y \<le> Suc n \<and> run F E e s = Some (Inr (run_finish y))"
    if err: "sock_recv e n = SockError"
  proof -
    from run_while_terminates [OF err, of "run_start F s" F E]
    obtain y where y: "run_while F E e (run_start F s) = Some (Inr y)" "\<not> active (rcv y)"
        "n_recv y \<le> Suc n"
      by (auto simp: run_start_fields)
    then show ?thesis by (auto simp: run_def)
  qed
  have ret: "\<exists>y. run_while F E e (run_start F s) = Some (Inr y) \<and> \<not> active (rcv y) \<and>
           res = Inr (run_finish y)"
    if r: "run F E e s = Some res"
  proof -
    from r obtain r0 where r0: "run_while F E e (run_start F s) = Some r0"
      by (auto simp: run_def Option.bind_eq_Some_conv)
    from run_while_result [OF r0] obtain y where y: "r0 = Inr y" "\<not> active (rcv y)"
      by (auto simp: run_start_fields)
    have "res = Inr (run_finish y)" using r r0 y by (simp add: run_def)
    then show ?thesis using r0 y by auto
  qed
  show ?thesis
    using step stops ret by (simp add: run_finish_fields)
qed

theorem socket_error_terminal_witness:
  "(\<exists>x'. recv_method example_externals
           (example_env\<lparr>sock_recv := (\<lambda>i. SockError)\<rparr>)
           (run_start example_filters example_receiver) = Some (None, x') \<and>
         \<not> active (rcv x') \<and> n_recv x' = Suc 0)
   \<and> (\<exists>y. run example_filters example_externals example_env example_receiver
          = Some (Inr (run_finish y)) \<and>
       n_recv y \<le> 2 \<and> \<not> active (rcv (run_finish y)) \<and> pipe (run_finish y) = Closed \<and>
       outfile (rcv (run_finish y)) = map_option (\<lambda>written. written @ [END_MARK]) (outfile (rcv y)))"
proof -
  have e: "sock_recv example_env 1 = SockError" by (simp add: example_env_def)
  from socket_error_terminal [of "run_start example_filters example_receiver" example_env
      example_externals 1 example_filters example_receiver "Inl StopIteration"]
  obtain y where y: "run_while example_filters example_externals example_env
        (run_start example_filters example_receiver) = Some (Inr y)" "\<not> active (rcv y)"
      "n_recv y \<le> Suc 1"
      "run example_filters example_externals example_env example_receiver
         = Some (Inr (run_finish y))"
    using e by blast
  have a: "\<exists>y. run example_filters example_externals example_env example_receiver
          = Some (Inr (run_finish y)) \<and>
       n_recv y \<le> 2 \<and> \<not> active (rcv (run_finish y)) \<and> pipe (run_finish y) = Closed \<and>
       outfile (rcv (run_finish y)) = map_option (\<lambda>written. written @ [END_MARK]) (outfile (rcv y))"
    using socket_error_terminal [of y example_env example_externals 1
        example_filters example_receiver "Inr (run_finish y)"] y
    by auto
  have b: "\<exists>x'. recv_method example_externals
           (example_env\<lparr>sock_recv := (\<lambda>i. SockError)\<rparr>)
           (run_start example_filters example_receiver) = Some (None, x') \<and>
         \<not> active (rcv x') \<and> n_recv x' = Suc 0"
    using socket_error_terminal [of "run_start example_filters example_receiver"
        "example_env\<lparr>sock_recv := (\<lambda>i. SockError)\<rparr>" example_externals 0
        example_filters example_receiver "Inl StopIteration"]
    by (auto simp: example_env_def run_start_fields)
  show ?thesis using a b by blast
qed

lemma run_while_after_end:
  fixes x :: "('t, 'p, 'w, 'f, 'g) exec"
  shows "run_while F E e (x\<lparr>rcv := receiver_end (rcv x)\<rparr>) =
     Some (Inr (x\<lparr>rcv := receiver_end (rcv x), n_reads := Suc (n_reads x)\<rparr>))"
proof -
  have "\<not> active (rcv (x\<lparr>rcv := receiver_end (rcv x)\<rparr>))" by (simp add: receiver_end_def)
  from run_while_inactive [OF this, of F E e]
  show ?thesis by (simp add: read_active_def receiver_end_def Let_def)
qed

text \<open>
  Claim C8 (\<open>end\<close> is idempotent).  \<open>end\<close> only clears the flag \<open>_active\<close>; it is a
  plain assignment and does not wait for the loop.  Calling it twice, or any number of
  times more than once, leaves the receiver in the same state as calling it once; and
  the loop of \<open>run\<close>, at its next read of the flag, is left in the same state after
  any number of calls as after one.
\<close>

theorem end_idempotent:
  fixes s :: "('t, 'p, 'w) receiver" and x :: "('t, 'p, 'w, 'f, 'g) exec"
  shows
  "receiver_end s = s\<lparr>active := False\<rparr>
   \<and> receiver_end (receiver_end s) = receiver_end s
   \<and> (receiver_end ^^ Suc n) s = receiver_end s
   \<and> run_while F E e (x\<lparr>rcv := (receiver_end ^^ Suc n) (rcv x)\<rparr>) =
       Some (Inr (x\<lparr>rcv := receiver_end (rcv x), n_reads := Suc (n_reads x)\<rparr>))"
proof -
  have i: "receiver_end (receiver_end t) = receiver_end t" for t :: "('t, 'p, 'w) receiver"
    by (simp add: receiver_end_def)
  have p: "(receiver_end ^^ Suc n) t = receiver_end t" for t :: "('t, 'p, 'w) receiver"
    by (induction n) (simp_all add: i)
  show ?thesis
    using i [of s] p [of s] p [of "rcv x"] run_while_after_end [of F E e x]
    by (simp add: receiver_end_def)
qed

theorem end_idempotent_witness:
  "(receiver_end ^^ 3) (example_receiver\<lparr>active := True\<rparr>)
     = receiver_end (example_receiver\<lparr>active := True\<rparr>)
   \<and> active (receiver_end (example_receiver\<lparr>active := True\<rparr>)) = False"
  using end_idempotent [of "example_receiver\<lparr>active := True\<rparr>" 2 example_filters
      example_externals example_env "run_start example_filters example_receiver"]
  by (simp add: receiver_end_def)

lemma feed_pd0_stage_run:
  "feed_pd0 F E g s ms =
     (fst (stage_run (pd0_step F) g ms), foldl (sink E) s (snd (stage_run (pd0_step F) g ms)))"
  by (induction ms arbitrary: g s) (simp_all add: split_def Let_def)

lemma run_while_sink_only:
  fixes F F' :: "('t, 'p, 'f, 'g) filters" and x :: "('t, 'p, 'w, 'f, 'g) exec"
  assumes "run_while F E e x = Some res" and "pipe x = Sink_Only"
  shows "run_while F' E e x = Some res"
proof -
  let ?P = "\<lambda>(F :: ('t, 'p, 'f, 'g) filters) (E :: ('t, 'p) externals) (e :: env)
      (x :: ('t, 'p, 'w, 'f, 'g) exec) (res :: exn + ('t, 'p, 'w, 'f, 'g) exec).
      pipe x = Sink_Only \<longrightarrow> run_while F' E e x = Some res"
  have "(case (((F, E), e), x) of
          (a, b) \<Rightarrow> (case a of (a, c) \<Rightarrow> (case a of (a, d) \<Rightarrow> ?P a d) c) b) res"
  proof (rule run_while.raw_induct [where P = ?P], goal_cases)
    case (1 f F E e x res)
    show ?case
    proof
      assume so: "pipe x = Sink_Only"
      obtain a x1 where r: "read_active e x = (a, x1)" by (cases "read_active e x")
      have x1: "pipe x1 = pipe x" using read_active_snd [of e x] r by simp
      show "run_while F' E e x = Some res"
      proof (cases a)
        case False
        then have "res = Inr x1" using 1(2) by (simp add: r)
        then show ?thesis using run_while.simps [of F' E e x] False by (simp add: r)
      next
        case True
        then obtain rv x2 where m: "recv_method E e x1 = Some (rv, x2)"
          using 1(2) by (auto simp: r Option.bind_eq_Some_conv)
        have p2: "pipe x2 = Sink_Only" using recv_method_frame [OF m] x1 so by simp
        show ?thesis
        proof (cases rv)
          case None
          then have "f F E e x2 = Some res" using 1(2) True m by (simp add: r)
          from 1(1) [OF this] p2 have "run_while F' E e x2 = Some res" by simp
          then show ?thesis using run_while.simps [of F' E e x] True m None by (simp add: r)
        next
          case (Some d)
          let ?x3 = "x2\<lparr>pipe := Sink_Only, rcv := sink E (rcv x2) (no_xelems, d)\<rparr>"
          have "f F E e ?x3 = Some res"
            using 1(2) True m Some p2 by (simp add: r pipeline_send_def)
          from 1(1) [OF this] have "run_while F' E e ?x3 = Some res" by simp
          then show ?thesis
            using run_while.simps [of F' E e x] True m Some p2 by (simp add: r pipeline_send_def)
        qed
      qed
    qed
  next
    case 2
    show ?case using assms(1) by simp
  qed
  then show ?thesis using assms(2) by simp
qed

lemma run_digi_independent:
  fixes F F' :: "('t, 'p, 'f, 'g) filters" and s :: "('t, 'p, 'w) receiver"
  assumes "ooi_digi s"
  shows "run F E e s = run F' E e s"
proof -
  have st: "run_start F s = run_start F' s" "pipe (run_start F s) = Sink_Only"
    using assms by (simp_all add: run_start_def build_pipeline_def log_append_def Let_def)
  have "run_while F E e (run_start F s) = run_while F' E e (run_start F s)"
  proof (cases "run_while F E e (run_start F s)")
    case (Some res)
    then show ?thesis using run_while_sink_only [OF Some st(2), of F'] by simp
  next
    case None
    show ?thesis
    proof (cases "run_while F' E e (run_start F s)")
      case n: None
      then show ?thesis using None by simp
    next
      case (Some res)
      then show ?thesis using run_while_sink_only [OF Some st(2), of F] None by simp
    qed
  qed
  then show ?thesis using st(1) by (simp add: run_def)
qed

text \<open>
  Claim C9 (construction of the pipeline).  With \<open>ooi_digi\<close> set, \<open>run\<close> builds the
  sink alone: a buffer sent into the pipeline goes to the sink as it is, and the result
  of \<open>run\<close> does not depend on the filters at all.  With \<open>ooi_digi\<close> clear, the
  pipeline is the timestamp filter, then the ensemble filter, then the sink: the sink
  handles, in order, the messages the ensemble filter sends for the messages the
  timestamp filter sends for the buffer.
\<close>

theorem pipeline_construction:
  fixes F F' :: "('t, 'p, 'f, 'g) filters" and s r :: "('t, 'p, 'w) receiver"
  shows
  "(ooi_digi s \<longrightarrow> pipe (run_start F s) = Sink_Only \<and> run F E e s = run F' E e s)
   \<and> pipeline_send F E Sink_Only r m = Inr (Sink_Only, sink E r m)
   \<and> (\<not> ooi_digi s \<longrightarrow> pipe (run_start F s) = Filtered (ts_init F) (pd0_init F))
   \<and> pipeline_send F E (Filtered f g) r m =
       Inr (Filtered (fst (ts_step F f m))
              (fst (stage_run (pd0_step F) g (snd (ts_step F f m)))),
            foldl (sink E) r (snd (stage_run (pd0_step F) g (snd (ts_step F f m)))))"
  using run_digi_independent [of s F E e F']
  by (simp add: run_start_def build_pipeline_def log_append_def Let_def pipeline_send_def
      feed_pd0_stage_run split_def)

theorem pipeline_construction_witness:
  "pipe (run_start example_filters (example_receiver\<lparr>ooi_digi := True\<rparr>)) = Sink_Only
   \<and> run example_filters example_externals example_env (example_receiver\<lparr>ooi_digi := True\<rparr>)
       = run (example_filters\<lparr>ts_step := (\<lambda>f m. (f, []))\<rparr>) example_externals example_env
           (example_receiver\<lparr>ooi_digi := True\<rparr>)
   \<and> pipe (run_start example_filters example_receiver) = Filtered () ()"
  using pipeline_construction [of "example_receiver\<lparr>ooi_digi := True\<rparr>" example_filters
      example_externals example_env "example_filters\<lparr>ts_step := (\<lambda>f m. (f, []))\<rparr>"
      example_receiver "(no_xelems, [])" "()" "()"]
    pipeline_construction [of example_receiver example_filters
      example_externals example_env example_filters example_receiver "(no_xelems, [])" "()" "()"]
  by (simp add: example_receiver_def new_receiver_def reset_internal_info_def set_state_def
      log_append_def Let_def example_filters_def)

lemma run_while_needs_stop:
  fixes F :: "('t, 'p, 'f, 'g) filters" and x :: "('t, 'p, 'w, 'f, 'g) exec"
  assumes "run_while F E e x = Some res" and "pipe x \<noteq> Closed"
    and "\<forall>k. \<not> end_calls e k" and "\<forall>i. sock_recv e i \<noteq> SockError"
  shows "\<not> active (rcv x)"
proof -
  let ?P = "\<lambda>(F :: ('t, 'p, 'f, 'g) filters) (E :: ('t, 'p) externals) (e :: env)
      (x :: ('t, 'p, 'w, 'f, 'g) exec) (res :: exn + ('t, 'p, 'w, 'f, 'g) exec).
      pipe x \<noteq> Closed \<and> (\<forall>k. \<not> end_calls e k) \<and> (\<forall>i. sock_recv e i \<noteq> SockError)
        \<longrightarrow> \<not> active (rcv x)"
  have "(case (((F, E), e), x) of
          (a, b) \<Rightarrow> (case a of (a, c) \<Rightarrow> (case a of (a, d) \<Rightarrow> ?P a d) c) b) res"
  proof (rule run_while.raw_induct [where P = ?P], goal_cases)
    case (1 f F E e x res)
    show ?case
    proof
      assume h: "pipe x \<noteq> Closed \<and> (\<forall>k. \<not> end_calls e k) \<and> (\<forall>i. sock_recv e i \<noteq> SockError)"
      obtain a x1 where r: "read_active e x = (a, x1)" by (cases "read_active e x")
      have x1: "active (rcv x1) = a" "pipe x1 = pipe x"
        using read_active_snd [of e x] r by simp_all
      have a: "a = active (rcv x)" using read_active_fst [of e x] r h by simp
      show "\<not> active (rcv x)"
      proof
        assume act: "active (rcv x)"
        then have True: a using a by simp
        then obtain rv x2 where m: "recv_method E e x1 = Some (rv, x2)"
          using 1(2) by (auto simp: r Option.bind_eq_Some_conv)
        have x2: "pipe x2 = pipe x" "active (rcv x2)"
          using recv_method_frame [OF m] x1 h True by simp_all
        show False
        proof (cases rv)
          case None
          then have "f F E e x2 = Some res" using 1(2) True m by (simp add: r)
          from 1(1) [OF this] x2 h show False by simp
        next
          case (Some d)
          from pipeline_send_open [of "pipe x2" F E "rcv x2" "(no_xelems, d)"]
          obtain pl s where p: "pipeline_send F E (pipe x2) (rcv x2) (no_xelems, d) = Inr (pl, s)"
              "pl \<noteq> Closed" "active s = active (rcv x2)"
            using x2 h by auto
          have "f F E e (x2\<lparr>pipe := pl, rcv := s\<rparr>) = Some res"
            using 1(2) True m Some p(1) by (simp add: r)
          from 1(1) [OF this] p x2 h show False by simp
        qed
      qed
    qed
  next
    case 2
    show ?case using assms(1) by simp
  qed
  then show ?thesis using assms(2-4) by simp
qed

lemma run_never_returns:
  fixes F :: "('t, 'p, 'f, 'g) filters" and s :: "('t, 'p, 'w) receiver"
  assumes "\<forall>k. \<not> end_calls e k" and "\<forall>i. sock_recv e i \<noteq> SockError"
  shows "run F E e s = None"
proof (cases "run_while F E e (run_start F s)")
  case None
  then show ?thesis by (simp add: run_def)
next
  case (Some res)
  from run_while_needs_stop [OF Some _ assms] show ?thesis by (simp add: run_start_fields)
qed

lemma recv_method_zero_bytes:
  assumes "active (rcv x)" and "sock_recv e (n_recv x) = Data []"
    and "\<not> end_calls e (n_reads x)" "\<not> end_calls e (Suc (n_reads x))"
      "\<not> end_calls e (Suc (Suc (n_reads x)))"
  shows "\<exists>x'. recv_method E e x = Some (None, x') \<and> active (rcv x') \<and>
      n_recv x' = Suc (n_recv x) \<and> pipe x' = pipe x \<and>
      tracker (rcv x') = tracker (rcv x) \<and> outfile (rcv x') = outfile (rcv x)"
  using assms
  by (simp add: recv_method_def recv_while.simps [of e _ None] recv_while_Some read_active_def
        log_append_def tracker_def Let_def)

text \<open>
  Claim C10 (a read of zero bytes does not end the receiver).  When \<open>sock.recv\<close>
  returns the empty buffer, with the receiver active and no call of \<open>end\<close> at the
  three reads of the flag made meanwhile, \<open>_recv\<close> returns \<open>None\<close> and leaves the
  flag set, the pipeline, the lines, the state and the transcript as they were.  On a
  socket whose every read returns zero bytes, with no call of \<open>end\<close>, \<open>run\<close> never
  returns.  Whenever \<open>run\<close> returns, some call of \<open>sock.recv\<close> raised a socket error
  or \<open>end\<close> was called.
\<close>

theorem zero_byte_read_not_terminal:
  fixes F :: "('t, 'p, 'f, 'g) filters" and s :: "('t, 'p, 'w) receiver"
    and x :: "('t, 'p, 'w, 'f, 'g) exec"
  shows
  "(active (rcv x) \<and> sock_recv e (n_recv x) = Data [] \<and> \<not> end_calls e (n_reads x) \<and>
      \<not> end_calls e (Suc (n_reads x)) \<and> \<not> end_calls e (Suc (Suc (n_reads x))) \<longrightarrow>
      (\<exists>x'. recv_method E e x = Some (None, x') \<and> active (rcv x') \<and>
         n_recv x' = Suc (n_recv x) \<and> pipe x' = pipe x \<and>
         tracker (rcv x') = tracker (rcv x) \<and> outfile (rcv x') = outfile (rcv x)))
   \<and> ((\<forall>i. sock_recv e i = Data []) \<and> (\<forall>k. \<not> end_calls e k) \<longrightarrow> run F E e s = None)
   \<and> (run F E e s \<noteq> None \<longrightarrow> (\<exists>i. sock_recv e i = SockError) \<or> (\<exists>k. end_calls e k))"
proof (intro conjI impI)
  assume "active (rcv x) \<and> sock_recv e (n_recv x) = Data [] \<and> \<not> end_calls e (n_reads x) \<and>
      \<not> end_calls e (Suc (n_reads x)) \<and> \<not> end_calls e (Suc (Suc (n_reads x)))"
  then show "\<exists>x'. recv_method E e x = Some (None, x') \<and> active (rcv x') \<and>
         n_recv x' = Suc (n_recv x) \<and> pipe x' = pipe x \<and>
         tracker (rcv x') = tracker (rcv x) \<and> outfile (rcv x') = outfile (rcv x)"
    using recv_method_zero_bytes [of x e E] by simp
next
  assume "(\<forall>i. sock_recv e i = Data []) \<and> (\<forall>k. \<not> end_calls e k)"
  then show "run F E e s = None"
    using run_never_returns [of e F E s] by simp
next
  assume ret: "run F E e s \<noteq> None"
  show "(\<exists>i. sock_recv e i = SockError) \<or> (\<exists>k. end_calls e k)"
  proof (rule ccontr)
    assume "\<not> ((\<exists>i. sock_recv e i = SockError) \<or> (\<exists>k. end_calls e k))"
    then have "\<forall>k. \<not> end_calls e k" "\<forall>i. sock_recv e i \<noteq> SockError" by simp_all
    from run_never_returns [of e F E s, OF this] ret show False by simp
  qed
qed

theorem zero_byte_read_not_terminal_witness:
  "(\<exists>x'. recv_method example_externals idle_env (run_start example_filters example_receiver)
          = Some (None, x') \<and> active (rcv x') \<and> n_recv x' = Suc 0)
   \<and> run example_filters example_externals idle_env example_receiver = None"
  using zero_byte_read_not_terminal [of "run_start example_filters example_receiver" idle_env
      example_externals example_filters example_receiver]
  by (auto simp: idle_env_def run_start_fields)

end
